theory Spec2Isabelle
  imports Main "HOL-Library.Word"
begin

section \<open>Strings and numbers of the host language\<close>

text \<open>
  A JavaScript string is a sequence of UTF-16 code units; \<open>includes\<close>, \<open>replace\<close>,
  \<open>trim\<close> and template literals all work on code units. Numbers that the program
  handles (item ids, prices, page numbers, time values in milliseconds) are integral
  and are modelled as \<open>int\<close>.
\<close>

type_synonym jsstring = "16 word list"

text \<open>\<open>!s\<close> for a string: only the empty string is falsy.\<close>

definition falsy :: "jsstring \<Rightarrow> bool" where
  "falsy s = (s = [])"

text \<open>\<open>!s\<close> for an optional string: \<open>undefined\<close> and the empty string are falsy.\<close>

definition falsy_opt :: "jsstring option \<Rightarrow> bool" where
  "falsy_opt s = (case s of None \<Rightarrow> True | Some t \<Rightarrow> falsy t)"

text \<open>\<open>a || b\<close> on an optional string with a string default.\<close>

definition or_else :: "jsstring option \<Rightarrow> jsstring \<Rightarrow> jsstring" where
  "or_else a b = (case a of None \<Rightarrow> b | Some t \<Rightarrow> if falsy t then b else t)"

primrec starts_with :: "'a list \<Rightarrow> 'a list \<Rightarrow> bool" where
  "starts_with hay [] = True"
| "starts_with hay (n # ns) = (case hay of [] \<Rightarrow> False | h # hs \<Rightarrow> h = n \<and> starts_with hs ns)"

text \<open>\<open>String.prototype.includes\<close>: the needle occurs as a contiguous run of code units.\<close>

primrec includes_js :: "'a list \<Rightarrow> 'a list \<Rightarrow> bool" where
  "includes_js [] needle = (needle = [])"
| "includes_js (h # hs) needle = (starts_with (h # hs) needle \<or> includes_js hs needle)"

text \<open>White space and line terminators that \<open>String.prototype.trim\<close> strips.\<close>

definition is_js_space :: "16 word \<Rightarrow> bool" where
  "is_js_space c =
     (c \<in> {0x09, 0x0A, 0x0B, 0x0C, 0x0D, 0x20, 0xA0, 0x1680, 0x2028, 0x2029, 0x202F,
            0x205F, 0x3000, 0xFEFF} \<or> (0x2000 \<le> c \<and> c \<le> 0x200A))"

definition trim :: "jsstring \<Rightarrow> jsstring" where
  "trim s = rev (dropWhile is_js_space (rev (dropWhile is_js_space s)))"

text \<open>Decimal rendering of an integral number, as \<open>String(n)\<close> and \<open>`${n}`\<close> give it.\<close>

fun digits :: "nat \<Rightarrow> jsstring" where
  "digits n = (if n < 10 then [0x30 + of_nat n] else digits (n div 10) @ [0x30 + of_nat (n mod 10)])"

declare digits.simps [simp del]

definition String :: "int \<Rightarrow> jsstring" where
  "String n = (if n < 0 then 0x2D # digits (nat (- n)) else digits (nat n))"

section \<open>Data model (types.ts)\<close>

datatype BookStatus = discovery | review | confirmed

record Book =
  id_book :: jsstring
  title :: jsstring
  author :: jsstring
  publisher :: jsstring
  pubDate :: jsstring
  cover :: jsstring
  description :: jsstring
  isbn13 :: jsstring
  priceStandard :: int
  priceSales :: int
  link :: jsstring
  categoryName :: "jsstring option"
  status :: "BookStatus option"

record ApiKeys =
  aladinTtb :: jsstring
  nlkApiKey :: "jsstring option"

datatype FetchSource = combined | bestseller | itemNewSpecial | editorRecommend

datatype SearchTarget = Keyword | Title | Author | Publisher

record GeminiAnalysis =
  summary :: jsstring
  budgetAnalysis :: jsstring
  categoryBreakdown :: jsstring
  recommendationScore :: int

section \<open>Proxy fetch gateway (fetchWithRetry)\<close>

text \<open>
  One request through a proxy either rejects (transport failure), or yields a response
  with its \<open>ok\<close> flag and status, whose body either fails to parse as JSON or parses.
\<close>

datatype 'a http_result =
    Rejected jsstring
  | Response bool int "jsstring + 'a"

datatype gateway_error =
    FetchRejected jsstring
  | HttpError int
  | BodyNotJson jsstring
  | AllProxiesFailed

text \<open>The body of the \<open>try\<close> block: what one attempt returns or throws.\<close>

definition attempt_once :: "'a http_result \<Rightarrow> gateway_error + 'a" where
  "attempt_once r =
     (case r of
        Rejected m \<Rightarrow> Inl (FetchRejected m)
      | Response ok st body \<Rightarrow>
          if \<not> ok then Inl (HttpError st)
          else (case body of Inl m \<Rightarrow> Inl (BodyNotJson m) | Inr data \<Rightarrow> Inr data))"

text \<open>
  The loop state: \<open>lastError\<close> (initially undefined) and the proxy URLs requested so far,
  in order. The network answers the \<open>n\<close>-th request of the call (counted from 0) to a
  URL with \<open>net url n\<close>.
\<close>

record 'u retry_state =
  lastError :: "gateway_error option"
  requested :: "'u list"

function attempt_loop ::
  "('u \<Rightarrow> nat \<Rightarrow> 'a http_result) \<Rightarrow> 'u \<Rightarrow> nat \<Rightarrow> 'u retry_state \<Rightarrow> 'a option \<times> 'u retry_state"
where
  "attempt_loop net proxyUrl attempt st =
     (if attempt < 2 then
        (case attempt_once (net proxyUrl (length (requested st))) of
           Inr data \<Rightarrow> (Some data, st\<lparr>requested := requested st @ [proxyUrl]\<rparr>)
         | Inl e \<Rightarrow>
             attempt_loop net proxyUrl (attempt + 1)
               (st\<lparr>lastError := Some e, requested := requested st @ [proxyUrl]\<rparr>))
      else (None, st))"
  by pat_completeness auto
termination
  by (relation "measure (\<lambda>(net, proxyUrl, attempt, st). 2 - attempt)") auto

declare attempt_loop.simps [simp del]

fun proxy_loop ::
  "('u \<Rightarrow> nat \<Rightarrow> 'a http_result) \<Rightarrow> ('u \<Rightarrow> 'u) list \<Rightarrow> 'u \<Rightarrow> 'u retry_state \<Rightarrow> 'a option \<times> 'u retry_state"
where
  "proxy_loop net [] targetUrl st = (None, st)"
| "proxy_loop net (proxyGenerator # rest) targetUrl st =
     (case attempt_loop net (proxyGenerator targetUrl) 0 st of
        (Some data, st') \<Rightarrow> (Some data, st')
      | (None, st') \<Rightarrow> proxy_loop net rest targetUrl st')"

text \<open>
  The result is the parsed body or the error thrown, together with the requests made.
  Every error the loop can capture is an object, hence truthy, so the generic error is
  thrown exactly when \<open>lastError\<close> is still undefined. The pause of one second after a
  failed attempt and the console warning have no part in the result and are left out.
\<close>

definition fetchWithRetry ::
  "('u \<Rightarrow> 'u) list \<Rightarrow> ('u \<Rightarrow> nat \<Rightarrow> 'a http_result) \<Rightarrow> 'u \<Rightarrow> (gateway_error + 'a) \<times> 'u list"
where
  "fetchWithRetry PROXIES net targetUrl =
     (case proxy_loop net PROXIES targetUrl \<lparr>lastError = None, requested = []\<rparr> of
        (Some data, st) \<Rightarrow> (Inr data, requested st)
      | (None, st) \<Rightarrow>
          (Inl (case lastError st of Some e \<Rightarrow> e | None \<Rightarrow> AllProxiesFailed), requested st))"

text \<open>The order in which the proxy URLs are due: each proxy twice, proxies in order.\<close>

definition schedule :: "('u \<Rightarrow> 'u) list \<Rightarrow> 'u \<Rightarrow> 'u list" where
  "schedule PROXIES targetUrl = concat (map (\<lambda>g. [g targetUrl, g targetUrl]) PROXIES)"

section \<open>Catalog client (bookService)\<close>

text \<open>
  The requests the client builds. Each stands for one URL template of the source with
  its cleaned key, query parameters and page; the cache-busting time stamp is left out.
\<close>

datatype QueryType = Bestseller | ItemNewSpecial

datatype request =
    ItemList jsstring QueryType int
  | ItemSearch jsstring jsstring SearchTarget int
  | RecommendList jsstring int

text \<open>
  The response shapes of the two providers. A field that is absent (or, for \<open>item\<close>
  and \<open>docs\<close>, not an array) is \<open>None\<close>.
\<close>

record aladin_item =
  item_itemId :: int
  item_title :: jsstring
  item_author :: jsstring
  item_publisher :: jsstring
  item_pubDate :: jsstring
  item_cover :: jsstring
  item_description :: "jsstring option"
  item_isbn13 :: jsstring
  item_priceStandard :: int
  item_priceSales :: int
  item_link :: jsstring
  item_categoryName :: "jsstring option"

record aladin_response =
  errorCode :: "int option"
  errorMessage :: "jsstring option"
  item :: "aladin_item list option"

record nlk_doc =
  doc_isbn13 :: "jsstring option"
  doc_no :: jsstring
  doc_bookname :: jsstring
  doc_authors :: jsstring
  doc_publisher :: jsstring
  doc_publication_year :: jsstring
  doc_bookImageURL :: jsstring
  doc_description :: "jsstring option"
  doc_class_nm :: "jsstring option"
  doc_bookDtlUrl :: jsstring

record nlk_response =
  response_error :: "jsstring option"
  response_docs :: "nlk_doc list option"

datatype payload =
    AladinData aladin_response
  | NlkData "nlk_response option"

text \<open>Reading a payload as one shape: the fields of the other shape are undefined.\<close>

definition as_aladin :: "payload \<Rightarrow> aladin_response" where
  "as_aladin p =
     (case p of AladinData d \<Rightarrow> d
      | NlkData _ \<Rightarrow> \<lparr>errorCode = None, errorMessage = None, item = None\<rparr>)"

definition as_nlk :: "payload \<Rightarrow> nlk_response option" where
  "as_nlk p = (case p of NlkData r \<Rightarrow> r | AladinData _ \<Rightarrow> None)"

text \<open>\<open>if (data.errorCode)\<close>: an error code that is present and not 0.\<close>

definition has_errorCode :: "aladin_response \<Rightarrow> bool" where
  "has_errorCode d = (case errorCode d of None \<Rightarrow> False | Some c \<Rightarrow> c \<noteq> 0)"

datatype error =
    Gateway gateway_error
  | MissingNlkKey
  | NlkError jsstring
  | AladinError "jsstring option"
  | AladinBestsellerError "jsstring option"
  | AladinNewSpecialError "jsstring option"
  | AladinSearchError "jsstring option" "int option"
  | GeminiKeyNotConfigured
  | AnalysisFailed

definition mapAladinItemToBook :: "aladin_item \<Rightarrow> Book" where
  "mapAladinItemToBook it =
     \<lparr>id_book = String (item_itemId it),
      title = item_title it,
      author = item_author it,
      publisher = item_publisher it,
      pubDate = item_pubDate it,
      cover = item_cover it,
      description = or_else (item_description it) [],
      isbn13 = item_isbn13 it,
      priceStandard = item_priceStandard it,
      priceSales = item_priceSales it,
      link = item_link it,
      categoryName = item_categoryName it,
      status = Some discovery\<rparr>"

text \<open>
  \<open>isWithinOneYear\<close>. The date parser of the host (\<open>new Date(dateStr)\<close>, \<open>None\<close> for an
  invalid date, otherwise the time value) and the time value of now with its year
  decremented (\<open>oneYearAgo\<close>) are parameters.
\<close>

definition isWithinOneYear :: "(jsstring \<Rightarrow> int option) \<Rightarrow> int \<Rightarrow> jsstring \<Rightarrow> bool" where
  "isWithinOneYear parseDate oneYearAgo dateStr =
     (if falsy dateStr then False
      else (case parseDate dateStr of
              None \<Rightarrow> True
            | Some t \<Rightarrow> t \<ge> oneYearAgo))"

text \<open>The comics marker, two Hangul syllables (U+B9CC U+D654).\<close>

definition comics_marker :: jsstring where
  "comics_marker = [0xB9CC, 0xD654]"

definition isNotComic :: "Book \<Rightarrow> bool" where
  "isNotComic book =
     (if falsy_opt (categoryName book) then True
      else \<not> includes_js (the (categoryName book)) comics_marker)"

text \<open>
  The mapping of a library document. The id is \<open>nlk-\<close> followed by the ISBN or, when
  that is missing or empty, the sequence number; an ISBN that is missing is read as the
  empty string in the \<open>isbn13\<close> field.
\<close>

definition nlk_prefix :: jsstring where
  "nlk_prefix = [0x6E, 0x6C, 0x6B, 0x2D]"

definition mapNlkDocToBook :: "nlk_doc \<Rightarrow> Book" where
  "mapNlkDocToBook d =
     \<lparr>id_book = nlk_prefix @ or_else (doc_isbn13 d) (doc_no d),
      title = doc_bookname d,
      author = doc_authors d,
      publisher = doc_publisher d,
      pubDate = doc_publication_year d,
      cover = doc_bookImageURL d,
      description = or_else (doc_description d) (or_else (doc_class_nm d) []),
      isbn13 = or_else (doc_isbn13 d) [],
      priceStandard = 0,
      priceSales = 0,
      link = doc_bookDtlUrl d,
      categoryName = doc_class_nm d,
      status = Some discovery\<rparr>"

definition searchBooks ::
  "(request \<Rightarrow> gateway_error + payload) \<Rightarrow> (jsstring \<Rightarrow> int option) \<Rightarrow> int \<Rightarrow>
   jsstring \<Rightarrow> jsstring \<Rightarrow> SearchTarget \<Rightarrow> int \<Rightarrow> error + Book list"
where
  "searchBooks fetchJson parseDate oneYearAgo query ttbKey target page =
     (if falsy query \<or> falsy ttbKey then Inr []
      else
        (case fetchJson (ItemSearch (trim ttbKey) query target page) of
           Inl e \<Rightarrow> Inl (Gateway e)
         | Inr p \<Rightarrow>
             (let data = as_aladin p in
              if has_errorCode data then Inl (AladinSearchError (errorMessage data) (errorCode data))
              else
                (case item data of
                   None \<Rightarrow> Inr []
                 | Some items \<Rightarrow>
                     Inr (filter isNotComic
                           (filter (\<lambda>book. isWithinOneYear parseDate oneYearAgo (pubDate book))
                             (map mapAladinItemToBook items)))))))"

text \<open>
  \<open>new Map(pairs)\<close> keeps the keys in the order of their first insertion and, for a key
  set again, the value of the last insertion; \<open>values()\<close> lists the values in key order.
\<close>

fun map_set :: "('k \<times> 'v) list \<Rightarrow> 'k \<Rightarrow> 'v \<Rightarrow> ('k \<times> 'v) list" where
  "map_set [] k v = [(k, v)]"
| "map_set ((k', v') # m) k v = (if k' = k then (k, v) # m else (k', v') # map_set m k v)"

definition new_Map :: "('k \<times> 'v) list \<Rightarrow> ('k \<times> 'v) list" where
  "new_Map entries = foldl (\<lambda>m (k, v). map_set m k v) [] entries"

definition uniqueBooks :: "Book list \<Rightarrow> Book list" where
  "uniqueBooks combined_list = map snd (new_Map (map (\<lambda>b. (id_book b, b)) combined_list))"

text \<open>\<open>Array.isArray(data.item) ? data.item.map(mapAladinItemToBook) : []\<close>\<close>

definition item_books :: "aladin_response \<Rightarrow> Book list" where
  "item_books data = (case item data of None \<Rightarrow> [] | Some items \<Rightarrow> map mapAladinItemToBook items)"

text \<open>
  \<open>fetchBooks\<close>. For the combined source both requests are issued together and joined;
  when both fail, the model raises the bestseller request's error.
\<close>

definition fetchBooks ::
  "(request \<Rightarrow> gateway_error + payload) \<Rightarrow> FetchSource \<Rightarrow> jsstring option \<Rightarrow> jsstring option \<Rightarrow>
   int \<Rightarrow> error + Book list"
where
  "fetchBooks fetchJson source ttbKey nlkKey page =
     (if source = editorRecommend then
        (if falsy_opt nlkKey then Inl MissingNlkKey
         else
           (case fetchJson (RecommendList (trim (the nlkKey)) page) of
              Inl e \<Rightarrow> Inl (Gateway e)
            | Inr p \<Rightarrow>
                (case as_nlk p of
                   None \<Rightarrow> Inr []
                 | Some r \<Rightarrow>
                     if \<not> falsy_opt (response_error r) then Inl (NlkError (the (response_error r)))
                     else (case response_docs r of
                             None \<Rightarrow> Inr []
                           | Some ds \<Rightarrow> Inr (map mapNlkDocToBook ds)))))
      else if falsy_opt ttbKey then Inr []
      else
        (let cleanKey = trim (the ttbKey) in
         if source = bestseller then
           (case fetchJson (ItemList cleanKey Bestseller page) of
              Inl e \<Rightarrow> Inl (Gateway e)
            | Inr p \<Rightarrow>
                if has_errorCode (as_aladin p) then Inl (AladinError (errorMessage (as_aladin p)))
                else Inr (filter isNotComic (item_books (as_aladin p))))
         else if source = itemNewSpecial then
           (case fetchJson (ItemList cleanKey ItemNewSpecial page) of
              Inl e \<Rightarrow> Inl (Gateway e)
            | Inr p \<Rightarrow>
                if has_errorCode (as_aladin p) then Inl (AladinError (errorMessage (as_aladin p)))
                else Inr (filter isNotComic (item_books (as_aladin p))))
         else
           (case fetchJson (ItemList cleanKey Bestseller page) of
              Inl e \<Rightarrow> Inl (Gateway e)
            | Inr pb \<Rightarrow>
                (case fetchJson (ItemList cleanKey ItemNewSpecial page) of
                   Inl e \<Rightarrow> Inl (Gateway e)
                 | Inr pn \<Rightarrow>
                     if has_errorCode (as_aladin pb)
                     then Inl (AladinBestsellerError (errorMessage (as_aladin pb)))
                     else if has_errorCode (as_aladin pn)
                     then Inl (AladinNewSpecialError (errorMessage (as_aladin pn)))
                     else
                       (let bestsellers = item_books (as_aladin pb);
                            newSpecials = item_books (as_aladin pn)
                        in Inr (filter isNotComic (uniqueBooks (bestsellers @ newSpecials))))))))"

section \<open>Analysis collaborator (geminiService)\<close>

text \<open>
  The generative endpoint is a parameter: \<open>generateContent\<close> gets the book list the
  prompt is built from and either throws (\<open>None\<close>) or answers with an optional text;
  \<open>jsonParse\<close> is \<open>JSON.parse\<close> read as a report (\<open>None\<close> when it throws). The second
  component of the result lists the calls made to the endpoint.
\<close>

definition canned_report :: GeminiAnalysis where
  "canned_report =
     \<lparr>summary = [0xC120, 0xD0DD, 0xB41C, 0x20, 0xB3C4, 0xC11C, 0xAC00, 0x20, 0xC5C6, 0xC2B5,
                 0xB2C8, 0xB2E4, 0x2E],
      budgetAnalysis = [0x30, 0xC6D0],
      categoryBreakdown = [0xC5C6, 0xC74C],
      recommendationScore = 0\<rparr>"

definition analyzeAcquisitionList ::
  "(Book list \<Rightarrow> jsstring option option) \<Rightarrow> (jsstring \<Rightarrow> GeminiAnalysis option) \<Rightarrow>
   jsstring option \<Rightarrow> Book list \<Rightarrow> (error + GeminiAnalysis) \<times> Book list list"
where
  "analyzeAcquisitionList generateContent jsonParse apiKey books =
     (if falsy_opt apiKey then (Inl GeminiKeyNotConfigured, [])
      else if length books = 0 then (Inr canned_report, [])
      else
        (case generateContent books of
           None \<Rightarrow> (Inl AnalysisFailed, [books])
         | Some text \<Rightarrow>
             if falsy_opt text then (Inl AnalysisFailed, [books])
             else (case jsonParse (the text) of
                     None \<Rightarrow> (Inl AnalysisFailed, [books])
                   | Some report \<Rightarrow> (Inr report, [books]))))"

section \<open>Acquisition board (App)\<close>

datatype fetch_message = LoadFailed error | SearchFailed error | NoRecentResults

record App =
  discoveryBooks :: "Book list"
  reviewBooks :: "Book list"
  confirmedBooks :: "Book list"
  excludedIdsRef :: "jsstring set"
  isLoading :: bool
  isSearching :: bool
  page :: int
  fetchError :: "fetch_message option"
  analysis :: "GeminiAnalysis option"

definition initial :: App where
  "initial =
     \<lparr>discoveryBooks = [], reviewBooks = [], confirmedBooks = [], excludedIdsRef = {},
      isLoading = False, isSearching = False, page = 1, fetchError = None, analysis = None\<rparr>"

text \<open>The effect that refreshes the excluded ids whenever the review or confirmed list changes.\<close>

definition excludedIds_effect :: "App \<Rightarrow> App" where
  "excludedIds_effect s =
     s\<lparr>excludedIdsRef := set (map id_book (reviewBooks s @ confirmedBooks s))\<rparr>"

text \<open>
  \<open>loadDiscoveryBooks\<close> in two halves: up to the \<open>await\<close> (the flag tells whether the
  request is issued), and from the settled request on. The second half reads the
  excluded ids as they are when the request settles.
\<close>

definition loadDiscoveryBooks_begin :: "ApiKeys \<Rightarrow> FetchSource \<Rightarrow> App \<Rightarrow> App \<times> bool" where
  "loadDiscoveryBooks_begin apiKeys source s =
     (if source = editorRecommend \<and> falsy_opt (nlkApiKey apiKeys)
      then (s\<lparr>discoveryBooks := []\<rparr>, False)
      else if (source = combined \<or> source = bestseller \<or> source = itemNewSpecial)
              \<and> falsy (aladinTtb apiKeys)
      then (s\<lparr>discoveryBooks := []\<rparr>, False)
      else (s\<lparr>isLoading := True, fetchError := None\<rparr>, True))"

definition loadDiscoveryBooks_settle :: "error + Book list \<Rightarrow> App \<Rightarrow> App" where
  "loadDiscoveryBooks_settle result s =
     (case result of
        Inr data \<Rightarrow>
          (let currentExcluded = excludedIdsRef s;
               freshData = filter (\<lambda>b. id_book b \<notin> currentExcluded) data
           in s\<lparr>discoveryBooks := freshData, isLoading := False\<rparr>)
      | Inl e \<Rightarrow> s\<lparr>fetchError := Some (LoadFailed e), discoveryBooks := [], isLoading := False\<rparr>)"

definition loadDiscoveryBooks ::
  "(request \<Rightarrow> gateway_error + payload) \<Rightarrow> ApiKeys \<Rightarrow> FetchSource \<Rightarrow> int \<Rightarrow> App \<Rightarrow> App"
where
  "loadDiscoveryBooks fetchJson apiKeys source currentPage s =
     (let (s', issued) = loadDiscoveryBooks_begin apiKeys source s in
      if issued then
        loadDiscoveryBooks_settle
          (fetchBooks fetchJson source (Some (aladinTtb apiKeys)) (nlkApiKey apiKeys) currentPage) s'
      else s')"

text \<open>\<open>handleSearch\<close>, split at its \<open>await\<close> in the same way.\<close>

definition handleSearch_begin :: "ApiKeys \<Rightarrow> jsstring \<Rightarrow> int \<Rightarrow> App \<Rightarrow> App \<times> bool" where
  "handleSearch_begin apiKeys searchQuery targetPage s =
     (if falsy (trim searchQuery) \<or> falsy (aladinTtb apiKeys) then (s, False)
      else
        (let s1 = s\<lparr>isSearching := True, isLoading := True, fetchError := None\<rparr>
         in (if targetPage = 1 then s1\<lparr>page := 1\<rparr> else s1, True)))"

definition handleSearch_settle :: "error + Book list \<Rightarrow> App \<Rightarrow> App" where
  "handleSearch_settle result s =
     (case result of
        Inr data \<Rightarrow>
          (let currentExcluded = excludedIdsRef s;
               freshData = filter (\<lambda>b. id_book b \<notin> currentExcluded) data;
               s1 = (if length data = 0 then s\<lparr>fetchError := Some NoRecentResults\<rparr> else s)
           in s1\<lparr>discoveryBooks := freshData, isLoading := False, isSearching := False\<rparr>)
      | Inl e \<Rightarrow> s\<lparr>fetchError := Some (SearchFailed e), isLoading := False, isSearching := False\<rparr>)"

definition handleSearch ::
  "(request \<Rightarrow> gateway_error + payload) \<Rightarrow> (jsstring \<Rightarrow> int option) \<Rightarrow> int \<Rightarrow> ApiKeys \<Rightarrow>
   jsstring \<Rightarrow> SearchTarget \<Rightarrow> int \<Rightarrow> App \<Rightarrow> App"
where
  "handleSearch fetchJson parseDate oneYearAgo apiKeys searchQuery searchTarget targetPage s =
     (let (s', issued) = handleSearch_begin apiKeys searchQuery targetPage s in
      if issued then
        handleSearch_settle
          (searchBooks fetchJson parseDate oneYearAgo searchQuery (aladinTtb apiKeys)
             searchTarget targetPage) s'
      else s')"

datatype action = add | approve | remove | return

definition moveBook :: "Book \<Rightarrow> action \<Rightarrow> App \<Rightarrow> App" where
  "moveBook book act s =
     (if act = add then
        s\<lparr>discoveryBooks := filter (\<lambda>b. id_book b \<noteq> id_book book) (discoveryBooks s),
          reviewBooks := book\<lparr>status := Some review\<rparr> # reviewBooks s\<rparr>
      else if act = approve then
        s\<lparr>reviewBooks := filter (\<lambda>b. id_book b \<noteq> id_book book) (reviewBooks s),
          confirmedBooks := book\<lparr>status := Some confirmed\<rparr> # confirmedBooks s,
          analysis := None\<rparr>
      else if act = return then
        (if status book = Some confirmed then
           s\<lparr>confirmedBooks := filter (\<lambda>b. id_book b \<noteq> id_book book) (confirmedBooks s),
             reviewBooks := book\<lparr>status := Some review\<rparr> # reviewBooks s,
             analysis := None\<rparr>
         else if status book = Some review then
           s\<lparr>reviewBooks := filter (\<lambda>b. id_book b \<noteq> id_book book) (reviewBooks s)\<rparr>
         else s)
      else s)"

text \<open>\<open>handleAnalyze\<close> after its \<open>await\<close>: the report is cached, a failure only alerts.\<close>

definition handleAnalyze_settle :: "error + GeminiAnalysis \<Rightarrow> App \<Rightarrow> App" where
  "handleAnalyze_settle result s =
     (case result of Inr report \<Rightarrow> s\<lparr>analysis := Some report\<rparr> | Inl e \<Rightarrow> s)"

subsection \<open>The purchase order (handleDownloadOrder)\<close>

definition quote_unit :: "16 word" where
  "quote_unit = 0x22"

text \<open>\<open>s.replace(/"/g, '""')\<close>\<close>

definition double_quotes :: "jsstring \<Rightarrow> jsstring" where
  "double_quotes s = concat (map (\<lambda>c. if c = quote_unit then [quote_unit, quote_unit] else [c]) s)"

definition in_quotes :: "jsstring \<Rightarrow> jsstring" where
  "in_quotes s = quote_unit # s @ [quote_unit]"

fun join :: "jsstring \<Rightarrow> jsstring list \<Rightarrow> jsstring" where
  "join sep [] = []"
| "join sep [x] = x"
| "join sep (x # y # ys) = x @ sep @ join sep (y # ys)"

definition headers :: "jsstring list" where
  "headers =
     [[0xC81C, 0xBAA9], [0xC800, 0xC790], [0xCD9C, 0xD310, 0xC0AC], [0xCD9C, 0xD310, 0xC77C],
      [0xC815, 0xAC00], [0xD310, 0xB9E4, 0xAC00], [0x49, 0x53, 0x42, 0x4E],
      [0xCE74, 0xD14C, 0xACE0, 0xB9AC]]"

definition order_row :: "Book \<Rightarrow> jsstring list" where
  "order_row book =
     [in_quotes (double_quotes (title book)),
      in_quotes (double_quotes (author book)),
      in_quotes (double_quotes (publisher book)),
      in_quotes (pubDate book),
      String (priceStandard book),
      String (priceSales book),
      in_quotes (isbn13 book),
      in_quotes (or_else (categoryName book) [])]"

definition csvContent :: "Book list \<Rightarrow> jsstring" where
  "csvContent books =
     [0xFEFF] @ join [0x0A] (join [0x2C] headers # map (\<lambda>book. join [0x2C] (order_row book)) books)"

text \<open>
  The blob holds the text in UTF-8: code units are paired into code points (a lone
  surrogate becomes U+FFFD) and each code point is written in one to four bytes.
\<close>

fun code_points :: "jsstring \<Rightarrow> nat list" where
  "code_points [] = []"
| "code_points [c] = [if 0xD800 \<le> c \<and> c \<le> 0xDFFF then 0xFFFD else unat c]"
| "code_points (h # l # cs) =
     (if 0xD800 \<le> h \<and> h \<le> 0xDBFF \<and> 0xDC00 \<le> l \<and> l \<le> 0xDFFF
      then (0x10000 + (unat h - 0xD800) * 0x400 + (unat l - 0xDC00)) # code_points cs
      else (if 0xD800 \<le> h \<and> h \<le> 0xDFFF then 0xFFFD else unat h) # code_points (l # cs))"

definition utf8_bytes :: "nat \<Rightarrow> 8 word list" where
  "utf8_bytes cp =
     (if cp < 0x80 then [of_nat cp]
      else if cp < 0x800 then [of_nat (0xC0 + cp div 0x40), of_nat (0x80 + cp mod 0x40)]
      else if cp < 0x10000 then
        [of_nat (0xE0 + cp div 0x1000), of_nat (0x80 + cp div 0x40 mod 0x40),
         of_nat (0x80 + cp mod 0x40)]
      else
        [of_nat (0xF0 + cp div 0x40000), of_nat (0x80 + cp div 0x1000 mod 0x40),
         of_nat (0x80 + cp div 0x40 mod 0x40), of_nat (0x80 + cp mod 0x40)])"

definition utf8_encode :: "jsstring \<Rightarrow> 8 word list" where
  "utf8_encode s = concat (map utf8_bytes (code_points s))"

text \<open>The downloaded file, or \<open>None\<close> when the handler returns without producing one.\<close>

definition handleDownloadOrder :: "App \<Rightarrow> 8 word list option" where
  "handleDownloadOrder s =
     (if length (confirmedBooks s) = 0 then None
      else Some (utf8_encode (csvContent (confirmedBooks s))))"

subsection \<open>User and network events\<close>

text \<open>The buttons a card offers, by the status of its book (BookCard).\<close>

definition card_actions :: "Book \<Rightarrow> action list" where
  "card_actions book =
     (case (case status book of None \<Rightarrow> discovery | Some st \<Rightarrow> st) of
        discovery \<Rightarrow> [add]
      | review \<Rightarrow> [return, approve]
      | confirmed \<Rightarrow> [return])"

text \<open>The books that have a card on screen: the discovery column shows a spinner while loading.\<close>

definition rendered :: "App \<Rightarrow> Book list" where
  "rendered s =
     (if isLoading s then [] else discoveryBooks s) @ reviewBooks s @ confirmedBooks s"

datatype event =
    Click Book action
  | LoadBegin ApiKeys FetchSource
  | LoadSettle "request \<Rightarrow> gateway_error + payload" ApiKeys FetchSource int
  | SearchBegin ApiKeys jsstring int
  | SearchSettle "request \<Rightarrow> gateway_error + payload" "jsstring \<Rightarrow> int option" int ApiKeys
      jsstring SearchTarget int
  | AnalysisSettle "error + GeminiAnalysis"

text \<open>
  A click needs its card and button on screen; a request settles only if the handler's
  first half issued it.
\<close>

definition enabled :: "App \<Rightarrow> event \<Rightarrow> bool" where
  "enabled s e =
     (case e of
        Click book act \<Rightarrow> book \<in> set (rendered s) \<and> act \<in> set (card_actions book)
      | LoadSettle fetchJson apiKeys source currentPage \<Rightarrow>
          snd (loadDiscoveryBooks_begin apiKeys source s)
      | SearchSettle fetchJson parseDate oneYearAgo apiKeys searchQuery searchTarget targetPage \<Rightarrow>
          snd (handleSearch_begin apiKeys searchQuery targetPage s)
      | _ \<Rightarrow> True)"

text \<open>
  One event. A click runs \<open>moveBook\<close> and, with the render that follows, the effect on
  the excluded ids; no request settles between the two. A settled request carries the
  provider's answer and installs the result of \<open>fetchBooks\<close> or \<open>searchBooks\<close>; it may
  settle at any later moment, after any number of other events.
\<close>

definition step :: "event \<Rightarrow> App \<Rightarrow> App" where
  "step e s =
     (case e of
        Click book act \<Rightarrow> excludedIds_effect (moveBook book act s)
      | LoadBegin apiKeys source \<Rightarrow> fst (loadDiscoveryBooks_begin apiKeys source s)
      | LoadSettle fetchJson apiKeys source currentPage \<Rightarrow>
          loadDiscoveryBooks_settle
            (fetchBooks fetchJson source (Some (aladinTtb apiKeys)) (nlkApiKey apiKeys) currentPage) s
      | SearchBegin apiKeys searchQuery targetPage \<Rightarrow>
          fst (handleSearch_begin apiKeys searchQuery targetPage s)
      | SearchSettle fetchJson parseDate oneYearAgo apiKeys searchQuery searchTarget targetPage \<Rightarrow>
          handleSearch_settle
            (searchBooks fetchJson parseDate oneYearAgo searchQuery (aladinTtb apiKeys)
               searchTarget targetPage) s
      | AnalysisSettle result \<Rightarrow> handleAnalyze_settle result s)"

fun run :: "event list \<Rightarrow> App \<Rightarrow> App option" where
  "run [] s = Some s"
| "run (e # es) s = (if enabled s e then run es (step e s) else None)"

declare run.simps [simp del]

subsection \<open>Board invariant\<close>

text \<open>
  What holds of the board after any sequence of events: every book carries the status of
  its column, no id occurs twice among the review and confirmed books, no discovery id is
  also a review or confirmed id, and the excluded ids are the review and confirmed ids.
\<close>

definition board_inv :: "App \<Rightarrow> bool" where
  "board_inv s =
     (list_all (\<lambda>b. status b = Some discovery) (discoveryBooks s) \<and>
      list_all (\<lambda>b. status b = Some review) (reviewBooks s) \<and>
      list_all (\<lambda>b. status b = Some confirmed) (confirmedBooks s) \<and>
      distinct (map id_book (reviewBooks s @ confirmedBooks s)) \<and>
      set (map id_book (discoveryBooks s)) \<inter> set (map id_book (reviewBooks s @ confirmedBooks s)) = {} \<and>
      excludedIdsRef s = set (map id_book (reviewBooks s @ confirmedBooks s)))"

text \<open>The ids of the later stages: review and confirmed.\<close>

definition later_ids :: "App \<Rightarrow> jsstring set" where
  "later_ids s = set (map id_book (reviewBooks s @ confirmedBooks s))"

section \<open>Notions used in the statements\<close>

subsection \<open>Failed requests of the gateway\<close>

text \<open>The \<open>i\<close>-th request of a log failed: it was rejected, not ok, or its body was not JSON.\<close>

definition fails_at :: "('u \<Rightarrow> nat \<Rightarrow> 'a http_result) \<Rightarrow> 'u list \<Rightarrow> nat \<Rightarrow> bool" where
  "fails_at net log i = isl (attempt_once (net (log ! i) i))"

text \<open>The error of the last request of a log, if there is one.\<close>

definition last_failure :: "('u \<Rightarrow> nat \<Rightarrow> 'a http_result) \<Rightarrow> 'u list \<Rightarrow> gateway_error option" where
  "last_failure net log =
     (if log = [] then None
      else (case attempt_once (net (last log) (length log - 1)) of
              Inl e \<Rightarrow> Some e
            | Inr d \<Rightarrow> None))"

text \<open>A loop state in which every request made so far has failed.\<close>

definition all_failed :: "('u \<Rightarrow> nat \<Rightarrow> 'a http_result) \<Rightarrow> 'u retry_state \<Rightarrow> bool" where
  "all_failed net st =
     ((\<forall>i < length (requested st). fails_at net (requested st) i) \<and>
      lastError st = last_failure net (requested st))"

text \<open>What a loop has achieved when it stops with result \<open>r\<close> in state \<open>st\<close>.\<close>

definition settled :: "('u \<Rightarrow> nat \<Rightarrow> 'a http_result) \<Rightarrow> 'a option \<Rightarrow> 'u retry_state \<Rightarrow> bool" where
  "settled net r st =
     (case r of
        None \<Rightarrow> all_failed net st
      | Some data \<Rightarrow>
          requested st \<noteq> [] \<and>
          (\<forall>i < length (requested st) - 1. fails_at net (requested st) i) \<and>
          attempt_once (net (last (requested st)) (length (requested st) - 1)) = Inr data)"

subsection \<open>Comics\<close>

text \<open>A book whose category is present and contains the comics marker.\<close>

definition in_comics :: "Book \<Rightarrow> bool" where
  "in_comics b = (case categoryName b of None \<Rightarrow> False | Some c \<Rightarrow> includes_js c comics_marker)"

subsection \<open>Reading a CSV file\<close>

text \<open>
  A reader for the CSV format of RFC 4180: records end at a line feed, fields at a comma;
  a field may be enclosed in double quotes, and then holds commas and line feeds as they
  are and a double quote written twice. Text outside the format is rejected.
\<close>

datatype csv_mode = FieldStart | Unquoted | Quoted | QuoteSeen

fun csv_read ::
  "csv_mode \<Rightarrow> jsstring \<Rightarrow> jsstring list \<Rightarrow> jsstring list list \<Rightarrow> jsstring \<Rightarrow> jsstring list list option"
where
  "csv_read Quoted fld row rows [] = None"
| "csv_read m fld row rows [] = Some (rows @ [row @ [fld]])"
| "csv_read FieldStart fld row rows (c # cs) =
     (if c = quote_unit then csv_read Quoted [] row rows cs
      else if c = 0x2C then csv_read FieldStart [] (row @ [[]]) rows cs
      else if c = 0x0A then csv_read FieldStart [] [] (rows @ [row @ [[]]]) cs
      else csv_read Unquoted [c] row rows cs)"
| "csv_read Unquoted fld row rows (c # cs) =
     (if c = quote_unit then None
      else if c = 0x2C then csv_read FieldStart [] (row @ [fld]) rows cs
      else if c = 0x0A then csv_read FieldStart [] [] (rows @ [row @ [fld]]) cs
      else csv_read Unquoted (fld @ [c]) row rows cs)"
| "csv_read Quoted fld row rows (c # cs) =
     (if c = quote_unit then csv_read QuoteSeen fld row rows cs
      else csv_read Quoted (fld @ [c]) row rows cs)"
| "csv_read QuoteSeen fld row rows (c # cs) =
     (if c = quote_unit then csv_read Quoted (fld @ [quote_unit]) row rows cs
      else if c = 0x2C then csv_read FieldStart [] (row @ [fld]) rows cs
      else if c = 0x0A then csv_read FieldStart [] [] (rows @ [row @ [fld]]) cs
      else None)"

text \<open>Reading the purchase order back: the byte-order mark is skipped, the rest is parsed.\<close>

definition csv_parse :: "jsstring \<Rightarrow> jsstring list list option" where
  "csv_parse content =
     csv_read FieldStart [] [] [] (if take 1 content = [0xFEFF] then drop 1 content else content)"

text \<open>The values a reader is to recover: the header names, then each book's eight column values.\<close>

definition order_values :: "Book \<Rightarrow> jsstring list" where
  "order_values book =
     [title book, author book, publisher book, pubDate book, String (priceStandard book),
      String (priceSales book), isbn13 book, or_else (categoryName book) []]"

section \<open>Sample inputs\<close>

text \<open>Concrete provider answers, books and boards at which the results below are evaluated.\<close>

subsection \<open>Items, books and keys\<close>

definition sample_item :: "int \<Rightarrow> jsstring \<Rightarrow> jsstring option \<Rightarrow> aladin_item" where
  "sample_item n date cat =
     \<lparr>item_itemId = n, item_title = [0x54], item_author = [0x41], item_publisher = [0x50],
      item_pubDate = date, item_cover = [], item_description = None, item_isbn13 = [0x39],
      item_priceStandard = 100, item_priceSales = 90, item_link = [],
      item_categoryName = cat\<rparr>"

definition sample_book :: "jsstring \<Rightarrow> jsstring \<Rightarrow> jsstring option \<Rightarrow> BookStatus \<Rightarrow> Book" where
  "sample_book ident date cat st =
     \<lparr>id_book = ident, title = [0x54], author = [0x41], publisher = [0x50], pubDate = date,
      cover = [], description = [], isbn13 = [0x39], priceStandard = 100, priceSales = 90,
      link = [], categoryName = cat, status = Some st\<rparr>"

definition book7 :: "BookStatus \<Rightarrow> Book" where
  "book7 st = sample_book [0x37] [0x32] None st"

definition sample_keys :: ApiKeys where
  "sample_keys = \<lparr>aladinTtb = [0x6B], nlkApiKey = Some [0x6E]\<rparr>"

definition sample_doc :: "jsstring option \<Rightarrow> nlk_doc" where
  "sample_doc cls =
     \<lparr>doc_isbn13 = Some [0x39], doc_no = [0x31], doc_bookname = [0x54], doc_authors = [0x41],
      doc_publisher = [0x50], doc_publication_year = [0x32], doc_bookImageURL = [],
      doc_description = None, doc_class_nm = cls, doc_bookDtlUrl = []\<rparr>"

text \<open>A book with a double quote in its title and, optionally, in its category.\<close>

definition quoted_book :: "jsstring option \<Rightarrow> Book" where
  "quoted_book cat =
     \<lparr>id_book = [0x37], title = [0x61, 0x22, 0x62], author = [0x41], publisher = [0x50],
      pubDate = [0x32], cover = [], description = [], isbn13 = [0x39], priceStandard = 1,
      priceSales = 2, link = [], categoryName = cat, status = Some confirmed\<rparr>"

subsection \<open>Provider answers\<close>

text \<open>A provider that answers every request with the same item list.\<close>

definition catalog_answer :: "aladin_item list \<Rightarrow> request \<Rightarrow> gateway_error + payload" where
  "catalog_answer items req =
     Inr (AladinData \<lparr>errorCode = None, errorMessage = None, item = Some items\<rparr>)"

text \<open>A provider that answers the bestseller list with one item list and the new-special list with another.\<close>

definition split_answer :: "aladin_item list \<Rightarrow> aladin_item list \<Rightarrow> request \<Rightarrow> gateway_error + payload" where
  "split_answer bs ns req =
     (case req of
        ItemList k Bestseller p \<Rightarrow>
          Inr (AladinData \<lparr>errorCode = None, errorMessage = None, item = Some bs\<rparr>)
      | ItemList k ItemNewSpecial p \<Rightarrow>
          Inr (AladinData \<lparr>errorCode = None, errorMessage = None, item = Some ns\<rparr>)
      | _ \<Rightarrow> Inl AllProxiesFailed)"

text \<open>A provider that answers the library request with documents and every other request with items.\<close>

definition mixed_answer :: "aladin_item list \<Rightarrow> nlk_doc list \<Rightarrow> request \<Rightarrow> gateway_error + payload" where
  "mixed_answer items ds req =
     (case req of
        RecommendList k p \<Rightarrow>
          Inr (NlkData (Some \<lparr>response_error = None, response_docs = Some ds\<rparr>))
      | _ \<Rightarrow> Inr (AladinData \<lparr>errorCode = None, errorMessage = None, item = Some items\<rparr>))"

subsection \<open>Networks for the gateway\<close>

text \<open>Two proxies and two scripted networks: success at the fourth request, and none.\<close>

definition two_proxies :: "(jsstring \<Rightarrow> jsstring) list" where
  "two_proxies = [\<lambda>url. 0x61 # url, \<lambda>url. 0x62 # url]"

definition scripted_net :: "'a http_result list \<Rightarrow> 'u \<Rightarrow> nat \<Rightarrow> 'a http_result" where
  "scripted_net script url n = (if n < length script then script ! n else Rejected [])"

definition late_success :: "int http_result list" where
  "late_success =
     [Rejected [], Response False 503 (Inr 0), Response True 200 (Inl [0x3C]),
      Response True 200 (Inr 42)]"

definition no_success :: "int http_result list" where
  "no_success =
     [Rejected [], Response False 503 (Inr 0), Response True 200 (Inl [0x3C]),
      Response False 404 (Inr 0)]"

subsection \<open>Date parsers\<close>

text \<open>A date parser for which no string is a date.\<close>

definition no_date :: "jsstring \<Rightarrow> int option" where
  "no_date d = None"

text \<open>A date parser that reads a single digit as its time value and nothing else.\<close>

definition digit_date :: "jsstring \<Rightarrow> int option" where
  "digit_date d =
     (case d of
        [c] \<Rightarrow> if 0x30 \<le> c \<and> c \<le> 0x39 then Some (uint c - 0x30) else None
      | _ \<Rightarrow> None)"

subsection \<open>Generative endpoint\<close>

text \<open>An endpoint that throws on every call, and a JSON reader that rejects every text.\<close>

definition no_answer :: "Book list \<Rightarrow> jsstring option option" where
  "no_answer books = None"

definition no_report :: "jsstring \<Rightarrow> GeminiAnalysis option" where
  "no_report text = None"

subsection \<open>Events and boards\<close>

text \<open>The bestseller request settles with item 7.\<close>

definition load7 :: event where
  "load7 = LoadSettle (catalog_answer [sample_item 7 [0x32] None]) sample_keys bestseller 1"

text \<open>A board with the given three lists, its excluded ids up to date, and nothing pending.\<close>

definition board7 :: "Book list \<Rightarrow> Book list \<Rightarrow> Book list \<Rightarrow> App" where
  "board7 d r c =
     \<lparr>discoveryBooks = d, reviewBooks = r, confirmedBooks = c,
      excludedIdsRef = set (map id_book (r @ c)),
      isLoading = False, isSearching = False, page = 1, fetchError = None, analysis = None\<rparr>"

section \<open>Books returned by the catalog client\<close>

lemma map_set_keys:
  "map fst (map_set m k v) = (if k \<in> set (map fst m) then map fst m else map fst m @ [k])"
  by (induction m k v rule: map_set.induct) auto

lemma map_set_entries: "set (map_set m k v) \<subseteq> insert (k, v) (set m)"
  by (induction m k v rule: map_set.induct) auto

lemma new_Map_entries_aux:
  "set (foldl (\<lambda>m (k, v). map_set m k v) m es) \<subseteq> set m \<union> set es"
proof (induction es arbitrary: m)
  case Nil
  then show ?case by simp
next
  case (Cons e es)
  obtain k v where e: "e = (k, v)" by (cases e)
  have "set (foldl (\<lambda>m (k, v). map_set m k v) (map_set m k v) es)
          \<subseteq> set (map_set m k v) \<union> set es"
    by (rule Cons.IH)
  with map_set_entries [of m k v] show ?case
    unfolding e by auto
qed

lemma uniqueBooks_subset: "set (uniqueBooks xs) \<subseteq> set xs"
proof
  fix b assume "b \<in> set (uniqueBooks xs)"
  then obtain k where "(k, b) \<in> set (new_Map (map (\<lambda>b. (id_book b, b)) xs))"
    by (auto simp: uniqueBooks_def)
  with new_Map_entries_aux [of "[]" "map (\<lambda>b. (id_book b, b)) xs"]
  have "(k, b) \<in> set (map (\<lambda>b. (id_book b, b)) xs)"
    by (auto simp: new_Map_def)
  then show "b \<in> set xs" by auto
qed

lemma mapAladin_status: "status (mapAladinItemToBook it) = Some discovery"
  by (simp add: mapAladinItemToBook_def)

lemma mapNlk_status: "status (mapNlkDocToBook d) = Some discovery"
  by (simp add: mapNlkDocToBook_def)

lemma item_books_status: "b \<in> set (item_books d) \<Longrightarrow> status b = Some discovery"
  by (auto simp: item_books_def mapAladin_status split: option.splits)

lemma fetchBooks_status:
  assumes "fetchBooks fetchJson source ttbKey nlkKey pg = Inr data" and "b \<in> set data"
  shows "status b = Some discovery"
proof -
  have u: "b \<in> set (uniqueBooks (xs @ ys)) \<Longrightarrow> b \<in> set xs \<or> b \<in> set ys" for xs ys
    using uniqueBooks_subset [of "xs @ ys"] by auto
  show ?thesis
    using assms
    by (auto simp: fetchBooks_def Let_def mapNlk_status dest!: u dest: item_books_status
        split: if_splits sum.splits option.splits)
qed

lemma searchBooks_status:
  assumes "searchBooks fetchJson parseDate oneYearAgo query ttbKey target pg = Inr data" and "b \<in> set data"
  shows "status b = Some discovery"
  using assms
  by (auto simp: searchBooks_def Let_def mapAladin_status split: if_splits sum.splits option.splits)

section \<open>Properties of the board\<close>

lemma initial_inv: "board_inv initial"
  by (simp add: board_inv_def initial_def)

lemma filter_ids_notin: "x \<notin> set (map id_book (filter (\<lambda>b. id_book b \<noteq> x) xs))"
  by (induction xs) auto

lemma distinct_ids_filter: "distinct (map id_book xs) \<Longrightarrow> distinct (map id_book (filter P xs))"
  by (induction xs) auto

lemma click_add_inv:
  assumes "board_inv s" and "book \<in> set (discoveryBooks s)"
  shows "board_inv (excludedIds_effect (moveBook book add s))"
proof -
  have nin: "id_book book \<notin> set (map id_book (reviewBooks s @ confirmedBooks s))"
    using assms by (auto simp: board_inv_def)
  show ?thesis
    using assms nin
    by (auto simp: board_inv_def excludedIds_effect_def moveBook_def list_all_iff)
qed

lemma click_approve_inv:
  assumes "board_inv s" and "book \<in> set (reviewBooks s)"
  shows "board_inv (excludedIds_effect (moveBook book approve s))"
proof -
  have nin: "id_book book \<notin> set (map id_book (confirmedBooks s))"
    "id_book book \<notin> set (map id_book (discoveryBooks s))"
    using assms by (auto simp: board_inv_def)
  show ?thesis
    using assms nin
    by (auto simp: board_inv_def excludedIds_effect_def moveBook_def list_all_iff distinct_ids_filter)
qed

lemma click_return_confirmed_inv:
  assumes "board_inv s" and "book \<in> set (confirmedBooks s)"
  shows "board_inv (excludedIds_effect (moveBook book return s))"
proof -
  have st: "status book = Some confirmed"
    using assms by (auto simp: board_inv_def list_all_iff)
  have nin: "id_book book \<notin> set (map id_book (reviewBooks s))"
    "id_book book \<notin> set (map id_book (discoveryBooks s))"
    using assms by (auto simp: board_inv_def)
  show ?thesis
    using assms nin st
    by (auto simp: board_inv_def excludedIds_effect_def moveBook_def list_all_iff distinct_ids_filter)
qed

lemma click_return_review_inv:
  assumes "board_inv s" and "book \<in> set (reviewBooks s)"
  shows "board_inv (excludedIds_effect (moveBook book return s))"
proof -
  have st: "status book = Some review"
    using assms by (auto simp: board_inv_def list_all_iff)
  show ?thesis
    using assms st
    by (auto simp: board_inv_def excludedIds_effect_def moveBook_def list_all_iff distinct_ids_filter)
qed

lemma click_inv:
  assumes inv: "board_inv s" and en: "enabled s (Click book act)"
  shows "board_inv (excludedIds_effect (moveBook book act s))"
proof -
  from en have r: "book \<in> set (rendered s)" and a: "act \<in> set (card_actions book)"
    by (simp_all add: enabled_def)
  from r consider (d) "book \<in> set (discoveryBooks s)" | (r) "book \<in> set (reviewBooks s)"
    | (c) "book \<in> set (confirmedBooks s)"
    by (auto simp: rendered_def split: if_splits)
  then show ?thesis
  proof cases
    case d
    with inv have "status book = Some discovery" by (auto simp: board_inv_def list_all_iff)
    with a have "act = add" by (simp add: card_actions_def)
    with d inv show ?thesis by (simp add: click_add_inv)
  next
    case r
    with inv have "status book = Some review" by (auto simp: board_inv_def list_all_iff)
    with a have "act = return \<or> act = approve" by (simp add: card_actions_def)
    with r inv show ?thesis by (auto simp: click_approve_inv click_return_review_inv)
  next
    case c
    with inv have "status book = Some confirmed" by (auto simp: board_inv_def list_all_iff)
    with a have "act = return" by (simp add: card_actions_def)
    with c inv show ?thesis by (simp add: click_return_confirmed_inv)
  qed
qed

lemma load_settle_inv:
  assumes "board_inv s"
  shows "board_inv (loadDiscoveryBooks_settle (fetchBooks fetchJson source ttbKey nlkKey pg) s)"
proof (cases "fetchBooks fetchJson source ttbKey nlkKey pg")
  case (Inl e)
  with assms show ?thesis
    by (auto simp: loadDiscoveryBooks_settle_def board_inv_def)
next
  case (Inr data)
  then have "list_all (\<lambda>b. status b = Some discovery) data"
    by (auto simp: list_all_iff dest: fetchBooks_status)
  with assms Inr show ?thesis
    by (auto simp: loadDiscoveryBooks_settle_def board_inv_def list_all_iff)
qed

lemma search_settle_inv:
  assumes "board_inv s"
  shows "board_inv (handleSearch_settle (searchBooks fetchJson parseDate oneYearAgo q k t pg) s)"
proof (cases "searchBooks fetchJson parseDate oneYearAgo q k t pg")
  case (Inl e)
  with assms show ?thesis
    by (auto simp: handleSearch_settle_def board_inv_def)
next
  case (Inr data)
  then have "list_all (\<lambda>b. status b = Some discovery) data"
    by (auto simp: list_all_iff dest: searchBooks_status)
  with assms Inr show ?thesis
    by (auto simp: handleSearch_settle_def board_inv_def list_all_iff Let_def)
qed

lemma load_begin_inv: "board_inv s \<Longrightarrow> board_inv (fst (loadDiscoveryBooks_begin apiKeys source s))"
  by (auto simp: loadDiscoveryBooks_begin_def board_inv_def)

lemma search_begin_inv: "board_inv s \<Longrightarrow> board_inv (fst (handleSearch_begin apiKeys q pg s))"
  by (auto simp: handleSearch_begin_def board_inv_def Let_def)

lemma analyze_settle_inv: "board_inv s \<Longrightarrow> board_inv (handleAnalyze_settle r s)"
  by (auto simp: handleAnalyze_settle_def board_inv_def split: sum.splits)

lemma step_inv:
  assumes "board_inv s" and "enabled s e"
  shows "board_inv (step e s)"
proof (cases e)
  case (Click book act)
  with assms show ?thesis by (simp add: step_def click_inv)
next
  case (LoadBegin k src)
  with assms show ?thesis by (simp add: step_def load_begin_inv)
next
  case (LoadSettle f k src pg)
  with assms show ?thesis by (simp add: step_def load_settle_inv)
next
  case (SearchBegin k q pg)
  with assms show ?thesis by (simp add: step_def search_begin_inv)
next
  case (SearchSettle f pd oya k q t pg)
  with assms show ?thesis by (simp add: step_def search_settle_inv)
next
  case (AnalysisSettle r)
  with assms show ?thesis by (simp add: step_def analyze_settle_inv)
qed

lemma run_inv: "board_inv s \<Longrightarrow> run es s = Some s' \<Longrightarrow> board_inv s'"
proof (induction es arbitrary: s)
  case Nil
  then show ?case by (simp add: run.simps)
next
  case (Cons e es)
  from Cons.prems have en: "enabled s e" and r: "run es (step e s) = Some s'"
    by (auto simp: run.simps split: if_splits)
  from Cons.prems(1) en have "board_inv (step e s)" by (rule step_inv)
  then show ?case using r by (rule Cons.IH)
qed

lemma reachable_inv: "run es initial = Some s \<Longrightarrow> board_inv s"
  using run_inv [OF initial_inv] .

lemma load_keeps_later: "later_ids (loadDiscoveryBooks fetchJson apiKeys source currentPage s) = later_ids s"
  by (auto simp: later_ids_def loadDiscoveryBooks_def loadDiscoveryBooks_begin_def
      loadDiscoveryBooks_settle_def Let_def split: sum.splits)

lemma search_keeps_later:
  "later_ids (handleSearch fetchJson parseDate oneYearAgo apiKeys q t pg s) = later_ids s"
  by (auto simp: later_ids_def handleSearch_def handleSearch_begin_def
      handleSearch_settle_def Let_def split: sum.splits)

lemma load_inv:
  assumes "board_inv s"
  shows "board_inv (loadDiscoveryBooks fetchJson apiKeys source currentPage s)"
proof (cases "snd (loadDiscoveryBooks_begin apiKeys source s)")
  case True
  then have "loadDiscoveryBooks fetchJson apiKeys source currentPage s =
      loadDiscoveryBooks_settle
        (fetchBooks fetchJson source (Some (aladinTtb apiKeys)) (nlkApiKey apiKeys) currentPage)
        (fst (loadDiscoveryBooks_begin apiKeys source s))"
    by (simp add: loadDiscoveryBooks_def split_def)
  with assms show ?thesis by (simp add: load_settle_inv load_begin_inv)
next
  case False
  then have "loadDiscoveryBooks fetchJson apiKeys source currentPage s =
      fst (loadDiscoveryBooks_begin apiKeys source s)"
    by (simp add: loadDiscoveryBooks_def split_def)
  with assms show ?thesis by (simp add: load_begin_inv)
qed

lemma search_inv:
  assumes "board_inv s"
  shows "board_inv (handleSearch fetchJson parseDate oneYearAgo apiKeys q t pg s)"
proof (cases "snd (handleSearch_begin apiKeys q pg s)")
  case True
  then have "handleSearch fetchJson parseDate oneYearAgo apiKeys q t pg s =
      handleSearch_settle (searchBooks fetchJson parseDate oneYearAgo q (aladinTtb apiKeys) t pg)
        (fst (handleSearch_begin apiKeys q pg s))"
    by (simp add: handleSearch_def split_def)
  with assms show ?thesis by (simp add: search_settle_inv search_begin_inv)
next
  case False
  then have "handleSearch fetchJson parseDate oneYearAgo apiKeys q t pg s =
      fst (handleSearch_begin apiKeys q pg s)"
    by (simp add: handleSearch_def split_def)
  with assms show ?thesis by (simp add: search_begin_inv)
qed

lemma inv_disjoint: "board_inv s \<Longrightarrow> set (map id_book (discoveryBooks s)) \<inter> later_ids s = {}"
  by (simp add: board_inv_def later_ids_def)

text \<open>
  Claim C1, as the code has it. In every board reached from the initial one by clicks and
  settled requests, no discovery id is a review or confirmed id; and whatever the
  provider answers, for any source, query and page, the discovery list that
  \<open>loadDiscoveryBooks\<close> or \<open>handleSearch\<close> leaves holds no book whose id is at that
  moment a review or confirmed id.
\<close>

theorem discovery_excludes_later_stages:
  assumes "run es initial = Some s"
  shows "set (map id_book (discoveryBooks s)) \<inter> later_ids s = {} \<and>
         set (map id_book (discoveryBooks (loadDiscoveryBooks fetchJson apiKeys source currentPage s)))
           \<inter> later_ids s = {} \<and>
         set (map id_book (discoveryBooks
                (handleSearch fetchJson parseDate oneYearAgo apiKeys searchQuery searchTarget targetPage s)))
           \<inter> later_ids s = {}"
proof -
  from assms have inv: "board_inv s" by (rule reachable_inv)
  have 1: "set (map id_book (discoveryBooks s)) \<inter> later_ids s = {}"
    using inv by (rule inv_disjoint)
  have 2: "set (map id_book (discoveryBooks (loadDiscoveryBooks fetchJson apiKeys source currentPage s)))
           \<inter> later_ids s = {}"
    using inv_disjoint [OF load_inv [OF inv], of fetchJson apiKeys source currentPage]
    by (simp add: load_keeps_later)
  have 3: "set (map id_book (discoveryBooks
                (handleSearch fetchJson parseDate oneYearAgo apiKeys searchQuery searchTarget targetPage s)))
           \<inter> later_ids s = {}"
    using inv_disjoint [OF search_inv [OF inv], of fetchJson parseDate oneYearAgo apiKeys searchQuery searchTarget targetPage]
    by (simp add: search_keeps_later)
  from 1 2 3 show ?thesis by simp
qed

text \<open>
  Claim C10. \<open>moveBook\<close> with \<open>return\<close> on a book whose status is \<open>discovery\<close> or
  undefined returns the board as it was: the three collections, the cached report and
  every other field are unchanged.
\<close>

theorem return_on_discovery_is_noop:
  assumes "status book = Some discovery \<or> status book = None"
  shows "moveBook book return s = s"
  using assms by (auto simp: moveBook_def)

lemma count_list_notin: "x \<notin> set xs \<Longrightarrow> count_list xs x = 0"
  by (induction xs) auto

lemma filter_other_ids:
  assumes "distinct (map id_book xs)" and "book \<in> set xs"
  shows "set (filter (\<lambda>b. id_book b \<noteq> id_book book) xs) = set xs - {book}"
  using assms by (induction xs) (auto simp: image_iff)

text \<open>
  Claim C5. On a reachable board, approving a book of the review list: the book's id was
  not among the confirmed ids before; afterwards the review list is the old one without
  that book and holds no book of its id, the confirmed list is the old one with the book,
  status \<open>confirmed\<close>, in front, its id occurs there exactly once, the cached report
  is cleared and the discovery list is untouched.
\<close>

theorem approve_moves_review_to_confirmed:
  assumes "run es initial = Some s" and "book \<in> set (reviewBooks s)"
  shows "id_book book \<notin> set (map id_book (confirmedBooks s)) \<and>
         reviewBooks (moveBook book approve s)
           = filter (\<lambda>b. id_book b \<noteq> id_book book) (reviewBooks s) \<and>
         set (reviewBooks (moveBook book approve s)) = set (reviewBooks s) - {book} \<and>
         id_book book \<notin> set (map id_book (reviewBooks (moveBook book approve s))) \<and>
         confirmedBooks (moveBook book approve s)
           = book\<lparr>status := Some confirmed\<rparr> # confirmedBooks s \<and>
         count_list (map id_book (confirmedBooks (moveBook book approve s))) (id_book book) = 1 \<and>
         analysis (moveBook book approve s) = None \<and>
         discoveryBooks (moveBook book approve s) = discoveryBooks s"
proof -
  from assms(1) have inv: "board_inv s" by (rule reachable_inv)
  have nin: "id_book book \<notin> set (map id_book (confirmedBooks s))"
    using inv assms(2) by (auto simp: board_inv_def)
  have d: "distinct (map id_book (reviewBooks s))"
    using inv by (simp add: board_inv_def)
  have r: "reviewBooks (moveBook book approve s)
           = filter (\<lambda>b. id_book b \<noteq> id_book book) (reviewBooks s)"
    by (simp add: moveBook_def)
  have c: "confirmedBooks (moveBook book approve s)
           = book\<lparr>status := Some confirmed\<rparr> # confirmedBooks s"
    by (simp add: moveBook_def)
  have cnt: "count_list (map id_book (confirmedBooks (moveBook book approve s))) (id_book book) = 1"
    using nin by (simp add: c count_list_notin)
  have rest: "analysis (moveBook book approve s) = None"
    "discoveryBooks (moveBook book approve s) = discoveryBooks s"
    by (simp_all add: moveBook_def)
  show ?thesis
    using nin r c cnt rest filter_other_ids [OF d assms(2)] filter_ids_notin [of "id_book book" "reviewBooks s"]
    by simp
qed

lemma String_7: "String 7 = [0x37]"
  by (simp add: String_def digits.simps)

lemma fetch7:
  "fetchBooks (catalog_answer [sample_item 7 [0x32] None]) bestseller (Some [0x6B]) k 1
     = Inr [book7 discovery]"
  by (simp add: fetchBooks_def falsy_opt_def falsy_def catalog_answer_def as_aladin_def
      has_errorCode_def item_books_def mapAladinItemToBook_def sample_item_def sample_book_def
      book7_def String_7 or_else_def isNotComic_def)

lemmas run_defs = run.simps enabled_def step_def sample_keys_def loadDiscoveryBooks_begin_def
  falsy_opt_def falsy_def loadDiscoveryBooks_settle_def initial_def rendered_def
  card_actions_def sample_book_def book7_def moveBook_def excludedIds_effect_def board7_def load7_def

lemma run_to_review:
  "run [load7, Click (book7 discovery) add] initial = Some (board7 [] [book7 review] [])"
  by (simp add: run_defs fetch7)

lemma run_to_confirmed:
  "run [load7, Click (book7 discovery) add, Click (book7 review) approve] initial
     = Some (board7 [] [] [book7 confirmed])"
  by (simp add: run_defs fetch7)

lemma run_to_discarded:
  "run [load7, Click (book7 discovery) add, Click (book7 review) return] initial
     = Some (board7 [] [] [])"
  by (simp add: run_defs fetch7)

theorem discovery_excludes_later_stages_witness:
  "run [load7, Click (book7 discovery) add] initial = Some (board7 [] [book7 review] []) \<and>
   later_ids (board7 [] [book7 review] []) = {[0x37]} \<and>
   set (map id_book (discoveryBooks (board7 [] [book7 review] []))) \<inter> {[0x37]} = {} \<and>
   set (map id_book (discoveryBooks
          (loadDiscoveryBooks (catalog_answer [sample_item 7 [0x32] None]) sample_keys bestseller 1
             (board7 [] [book7 review] [])))) \<inter> {[0x37]} = {} \<and>
   set (map id_book (discoveryBooks
          (handleSearch (catalog_answer [sample_item 7 [0x32] None]) (\<lambda>d. None) 0 sample_keys
             [0x54] Keyword 1 (board7 [] [book7 review] [])))) \<inter> {[0x37]} = {}"
proof -
  have l: "later_ids (board7 [] [book7 review] []) = {[0x37]}"
    by (simp add: later_ids_def board7_def book7_def sample_book_def)
  show ?thesis
    using discovery_excludes_later_stages [OF run_to_review,
        of "catalog_answer [sample_item 7 [0x32] None]" sample_keys bestseller 1
           "\<lambda>d. None" 0 "[0x54]" Keyword 1]
    by (simp add: l run_to_review)
qed

text \<open>
  Claim C1, as stated, fails: membership in review does not exclude an id for good.
  Book 7 is added to review, then discarded from review with \<open>return\<close>; the next
  bestseller fetch that lists it installs it in discovery again.
\<close>

theorem rediscovery_after_discard_counterexample:
  "run [load7, Click (book7 discovery) add] initial \<noteq> None \<and>
   [0x37] \<in> later_ids (the (run [load7, Click (book7 discovery) add] initial)) \<and>
   run [load7, Click (book7 discovery) add, Click (book7 review) return] initial \<noteq> None \<and>
   discoveryBooks
     (loadDiscoveryBooks (catalog_answer [sample_item 7 [0x32] None]) sample_keys bestseller 1
        (the (run [load7, Click (book7 discovery) add, Click (book7 review) return] initial)))
     = [book7 discovery] \<and>
   id_book (book7 discovery) = [0x37]"
proof -
  have a: "[0x37] \<in> later_ids (board7 [] [book7 review] [])"
    by (simp add: later_ids_def board7_def book7_def sample_book_def)
  have b: "discoveryBooks
     (loadDiscoveryBooks (catalog_answer [sample_item 7 [0x32] None]) sample_keys bestseller 1
        (board7 [] [] [])) = [book7 discovery]"
    by (simp add: loadDiscoveryBooks_def loadDiscoveryBooks_begin_def loadDiscoveryBooks_settle_def
        sample_keys_def falsy_opt_def falsy_def fetch7 board7_def)
  have c: "id_book (book7 discovery) = [0x37]"
    by (simp add: book7_def sample_book_def)
  show ?thesis
    unfolding run_to_review run_to_discarded using a b c by simp
qed

theorem return_on_discovery_is_noop_witness:
  "(status (book7 discovery) = Some discovery \<or> status (book7 discovery) = None) \<and>
   moveBook (book7 discovery) return (board7 [book7 discovery] [] []) = board7 [book7 discovery] [] []"
  using return_on_discovery_is_noop [of "book7 discovery" "board7 [book7 discovery] [] []"]
  by (simp add: book7_def sample_book_def)

theorem approve_moves_review_to_confirmed_witness:
  "run [load7, Click (book7 discovery) add] initial = Some (board7 [] [book7 review] []) \<and>
   book7 review \<in> set (reviewBooks (board7 [] [book7 review] [])) \<and>
   reviewBooks (moveBook (book7 review) approve (board7 [] [book7 review] [])) = [] \<and>
   confirmedBooks (moveBook (book7 review) approve (board7 [] [book7 review] [])) = [book7 confirmed] \<and>
   analysis (moveBook (book7 review) approve (board7 [] [book7 review] [])) = None"
proof -
  have m: "book7 review \<in> set (reviewBooks (board7 [] [book7 review] []))"
    by (simp add: board7_def)
  show ?thesis
    using approve_moves_review_to_confirmed [OF run_to_review m] run_to_review m
    by (simp add: board7_def book7_def sample_book_def)
qed

text \<open>
  Claim C6. On a reachable board, \<open>return\<close> on a book shown in the review or confirmed
  column. If its status is \<open>confirmed\<close>, the book is in the confirmed list, leaves it, is
  put in front of the review list with status \<open>review\<close>, the cached report is cleared,
  and its id is afterwards neither in discovery nor in confirmed. If its status is
  \<open>review\<close>, the book is in the review list, leaves it, the other lists and the report
  are unchanged, and its id is afterwards in none of the three lists.
\<close>

theorem return_sends_confirmed_to_review_and_discards_reviewed:
  assumes "run es initial = Some s" and "book \<in> set (reviewBooks s @ confirmedBooks s)"
  shows "(let s' = moveBook book return s in
          (status book = Some confirmed \<longrightarrow>
             book \<in> set (confirmedBooks s) \<and>
             confirmedBooks s' = filter (\<lambda>b. id_book b \<noteq> id_book book) (confirmedBooks s) \<and>
             set (confirmedBooks s') = set (confirmedBooks s) - {book} \<and>
             reviewBooks s' = book\<lparr>status := Some review\<rparr> # reviewBooks s \<and>
             discoveryBooks s' = discoveryBooks s \<and>
             analysis s' = None \<and>
             id_book book \<notin> set (map id_book (discoveryBooks s' @ confirmedBooks s'))) \<and>
          (status book = Some review \<longrightarrow>
             book \<in> set (reviewBooks s) \<and>
             reviewBooks s' = filter (\<lambda>b. id_book b \<noteq> id_book book) (reviewBooks s) \<and>
             set (reviewBooks s') = set (reviewBooks s) - {book} \<and>
             confirmedBooks s' = confirmedBooks s \<and>
             discoveryBooks s' = discoveryBooks s \<and>
             analysis s' = analysis s \<and>
             id_book book
               \<notin> set (map id_book (discoveryBooks s' @ reviewBooks s' @ confirmedBooks s'))))"
proof -
  from assms(1) have inv: "board_inv s" by (rule reachable_inv)
  have dr: "distinct (map id_book (reviewBooks s))" and dc: "distinct (map id_book (confirmedBooks s))"
    using inv by (simp_all add: board_inv_def)
  have nd: "id_book book \<notin> set (map id_book (discoveryBooks s))"
    using inv assms(2) by (auto simp: board_inv_def)
  have c: "status book = Some confirmed \<Longrightarrow> book \<in> set (confirmedBooks s)"
    using inv assms(2) by (auto simp: board_inv_def list_all_iff)
  have r: "status book = Some review \<Longrightarrow> book \<in> set (reviewBooks s)"
    using inv assms(2) by (auto simp: board_inv_def list_all_iff)
  have rc: "book \<in> set (reviewBooks s) \<Longrightarrow> id_book book \<notin> set (map id_book (confirmedBooks s))"
    using inv by (auto simp: board_inv_def)
  have 1: "status book = Some confirmed \<Longrightarrow>
      set (filter (\<lambda>b. id_book b \<noteq> id_book book) (confirmedBooks s)) = set (confirmedBooks s) - {book}"
    using filter_other_ids [OF dc] c by simp
  have 2: "status book = Some review \<Longrightarrow>
      set (filter (\<lambda>b. id_book b \<noteq> id_book book) (reviewBooks s)) = set (reviewBooks s) - {book}"
    using filter_other_ids [OF dr] r by simp
  have 3: "id_book book \<notin> set (map id_book (filter (\<lambda>b. id_book b \<noteq> id_book book) xs))" for xs
    by (rule filter_ids_notin)
  have 4: "status book = Some confirmed \<Longrightarrow>
      id_book book \<notin> set (map id_book (discoveryBooks s
          @ filter (\<lambda>b. id_book b \<noteq> id_book book) (confirmedBooks s)))"
    using nd 3 [of "confirmedBooks s"] by simp
  have 5: "status book = Some review \<Longrightarrow>
      id_book book \<notin> set (map id_book (discoveryBooks s
          @ filter (\<lambda>b. id_book b \<noteq> id_book book) (reviewBooks s) @ confirmedBooks s))"
    using nd r rc 3 [of "reviewBooks s"] by simp
  show ?thesis
    using c r 1 2 4 5
    by (simp add: Let_def moveBook_def del: set_filter set_append map_append filter_append)
qed

theorem return_sends_confirmed_to_review_and_discards_reviewed_witness:
  "run [load7, Click (book7 discovery) add, Click (book7 review) approve] initial
     = Some (board7 [] [] [book7 confirmed]) \<and>
   book7 confirmed \<in> set (reviewBooks (board7 [] [] [book7 confirmed])
                            @ confirmedBooks (board7 [] [] [book7 confirmed])) \<and>
   status (book7 confirmed) = Some confirmed \<and>
   confirmedBooks (moveBook (book7 confirmed) return (board7 [] [] [book7 confirmed])) = [] \<and>
   reviewBooks (moveBook (book7 confirmed) return (board7 [] [] [book7 confirmed])) = [book7 review] \<and>
   discoveryBooks (moveBook (book7 confirmed) return (board7 [] [] [book7 confirmed])) = [] \<and>
   run [load7, Click (book7 discovery) add] initial = Some (board7 [] [book7 review] []) \<and>
   book7 review \<in> set (reviewBooks (board7 [] [book7 review] [])
                         @ confirmedBooks (board7 [] [book7 review] [])) \<and>
   status (book7 review) = Some review \<and>
   reviewBooks (moveBook (book7 review) return (board7 [] [book7 review] [])) = [] \<and>
   confirmedBooks (moveBook (book7 review) return (board7 [] [book7 review] [])) = [] \<and>
   discoveryBooks (moveBook (book7 review) return (board7 [] [book7 review] [])) = []"
proof -
  have m1: "book7 confirmed \<in> set (reviewBooks (board7 [] [] [book7 confirmed])
                            @ confirmedBooks (board7 [] [] [book7 confirmed]))"
    by (simp add: board7_def)
  have m2: "book7 review \<in> set (reviewBooks (board7 [] [book7 review] [])
                         @ confirmedBooks (board7 [] [book7 review] []))"
    by (simp add: board7_def)
  have s1: "status (book7 confirmed) = Some confirmed" and s2: "status (book7 review) = Some review"
    by (simp_all add: book7_def sample_book_def)
  show ?thesis
    using return_sends_confirmed_to_review_and_discards_reviewed [OF run_to_confirmed m1]
      return_sends_confirmed_to_review_and_discards_reviewed [OF run_to_review m2]
      run_to_confirmed run_to_review m1 m2 s1 s2
    by (simp add: Let_def board7_def book7_def sample_book_def)
qed

section \<open>Properties of the gateway\<close>

lemma attempt_loop_unfold:
  "attempt_loop net u 0 st =
     (case attempt_once (net u (length (requested st))) of
        Inr d \<Rightarrow> (Some d, st\<lparr>requested := requested st @ [u]\<rparr>)
      | Inl e1 \<Rightarrow>
          (case attempt_once (net u (Suc (length (requested st)))) of
             Inr d \<Rightarrow> (Some d, st\<lparr>lastError := Some e1, requested := requested st @ [u, u]\<rparr>)
           | Inl e2 \<Rightarrow> (None, st\<lparr>lastError := Some e2, requested := requested st @ [u, u]\<rparr>)))"
  by (simp add: attempt_loop.simps split: sum.splits)

lemma attempt_loop_settled:
  assumes "all_failed net st" and "attempt_loop net u 0 st = (r, st')"
  shows "settled net r st' \<and>
         (\<exists>k \<le> 2. requested st' = requested st @ replicate k u \<and> (r = None \<longrightarrow> k = 2))"
proof -
  let ?n = "length (requested st)"
  have old: "\<And>i ys. i < ?n \<Longrightarrow> fails_at net (requested st @ ys) i"
    using assms(1) by (simp add: all_failed_def fails_at_def nth_append)
  show ?thesis
  proof (cases "attempt_once (net u ?n)")
    case (Inr d)
    with assms(2) have r: "r = Some d" and st': "st' = st\<lparr>requested := requested st @ [u]\<rparr>"
      by (simp_all add: attempt_loop_unfold)
    have "settled net r st'"
      using Inr old by (simp add: r st' settled_def)
    moreover have "requested st' = requested st @ replicate 1 u"
      by (simp add: st')
    ultimately show ?thesis using r by (intro conjI exI [of _ 1]) simp_all
  next
    case e1: (Inl e1)
    have f1: "fails_at net (requested st @ ys) ?n" if "ys \<noteq> []" "hd ys = u" for ys
      using that e1 by (cases ys) (simp_all add: fails_at_def nth_append)
    show ?thesis
    proof (cases "attempt_once (net u (Suc ?n))")
      case (Inr d)
      with e1 assms(2) have r: "r = Some d"
        and st': "st' = st\<lparr>lastError := Some e1, requested := requested st @ [u, u]\<rparr>"
        by (simp_all add: attempt_loop_unfold)
      have "\<forall>i < Suc ?n. fails_at net (requested st @ [u, u]) i"
        using old [of _ "[u, u]"] f1 [of "[u, u]"] by (auto simp: less_Suc_eq)
      then have "settled net r st'"
        using Inr by (simp add: r st' settled_def)
      moreover have "requested st' = requested st @ replicate 2 u"
        by (simp add: st' numeral_2_eq_2)
      ultimately show ?thesis using r by (intro conjI exI [of _ 2]) simp_all
    next
      case e2: (Inl e2)
      with e1 assms(2) have r: "r = None"
        and st': "st' = st\<lparr>lastError := Some e2, requested := requested st @ [u, u]\<rparr>"
        by (simp_all add: attempt_loop_unfold)
      have f2: "fails_at net (requested st @ [u, u]) (Suc ?n)"
        using e2 by (simp add: fails_at_def nth_append)
      have "\<forall>i < Suc (Suc ?n). fails_at net (requested st @ [u, u]) i"
        using old [of _ "[u, u]"] f1 [of "[u, u]"] f2 by (auto simp: less_Suc_eq)
      then have "settled net r st'"
        using e2 by (simp add: r st' settled_def all_failed_def last_failure_def)
      moreover have "requested st' = requested st @ replicate 2 u"
        by (simp add: st' numeral_2_eq_2)
      ultimately show ?thesis using r by (intro conjI exI [of _ 2]) simp_all
    qed
  qed
qed

lemma schedule_Cons: "schedule (g # gs) t = g t # g t # schedule gs t"
  by (simp add: schedule_def)

lemma proxy_loop_settled:
  assumes "all_failed net st" and "proxy_loop net ps t st = (r, st')"
  shows "settled net r st' \<and>
         (\<exists>k \<le> length (schedule ps t).
            requested st' = requested st @ take k (schedule ps t) \<and>
            (r = None \<longrightarrow> k = length (schedule ps t)))"
  using assms
proof (induction ps arbitrary: st)
  case Nil
  then show ?case by (simp add: settled_def schedule_def)
next
  case (Cons g gs)
  obtain r1 st1 where a: "attempt_loop net (g t) 0 st = (r1, st1)"
    by (cases "attempt_loop net (g t) 0 st")
  from attempt_loop_settled [OF Cons.prems(1) a]
  obtain k where s1: "settled net r1 st1" and k: "k \<le> 2"
    and req1: "requested st1 = requested st @ replicate k (g t)" and kn: "r1 = None \<longrightarrow> k = 2"
    by blast
  have rep: "replicate k (g t) = take k (schedule (g # gs) t)"
  proof -
    from k have "k = 0 \<or> k = 1 \<or> k = 2" by arith
    then show ?thesis by (auto simp: schedule_Cons numeral_2_eq_2)
  qed
  show ?case
  proof (cases r1)
    case (Some d)
    with a Cons.prems(2) have "r = Some d" and "st' = st1" by simp_all
    with s1 Some req1 rep k show ?thesis
      by (intro conjI exI [of _ k]) (simp_all add: schedule_Cons)
  next
    case None
    with a Cons.prems(2) have p: "proxy_loop net gs t st1 = (r, st')" by simp
    from None s1 have af: "all_failed net st1" by (simp add: settled_def)
    from Cons.IH [OF af p] obtain k' where s': "settled net r st'"
      and k': "k' \<le> length (schedule gs t)"
      and req': "requested st' = requested st1 @ take k' (schedule gs t)"
      and kn': "r = None \<longrightarrow> k' = length (schedule gs t)"
      by blast
    from None kn have k2: "k = 2" by simp
    have "requested st' = requested st @ take (2 + k') (schedule (g # gs) t)"
      by (simp add: req' req1 k2 schedule_Cons numeral_2_eq_2)
    with s' k' kn' show ?thesis
      by (intro conjI exI [of _ "2 + k'"]) (simp_all add: schedule_Cons)
  qed
qed

lemma length_schedule: "length (schedule ps t) = 2 * length ps"
  by (induction ps) (simp_all add: schedule_def)

text \<open>
  Claim C4. The requests \<open>fetchWithRetry\<close> makes are an initial part of the schedule
  "each proxy twice, proxies in order", so no proxy is tried more than twice. If it
  returns data, every request before the last one failed and the last one succeeded
  with that data (transport, ok status and JSON body). If it raises an error, the whole
  schedule was tried, every request failed, and the error is the one of the last request,
  or the generic error when no request was made at all.
\<close>

theorem fetchWithRetry_first_success_or_last_error:
  "(case fetchWithRetry PROXIES (net :: 'u \<Rightarrow> nat \<Rightarrow> 'a http_result) targetUrl of
      (result, log) \<Rightarrow>
        (\<exists>k \<le> 2 * length PROXIES. log = take k (schedule PROXIES targetUrl)) \<and>
        (case result of
           Inr data \<Rightarrow>
             log \<noteq> [] \<and>
             (\<forall>i < length log - 1. fails_at net log i) \<and>
             attempt_once (net (last log) (length log - 1)) = Inr data
         | Inl e \<Rightarrow>
             log = schedule PROXIES targetUrl \<and>
             (\<forall>i < length log. fails_at net log i) \<and>
             (if log = [] then e = AllProxiesFailed
              else attempt_once (net (last log) (length log - 1)) = Inl e)))"
proof -
  let ?st0 = "\<lparr>lastError = None, requested = []\<rparr> :: 'u retry_state"
  obtain r st where p: "proxy_loop net PROXIES targetUrl ?st0 = (r, st)"
    by (cases "proxy_loop net PROXIES targetUrl ?st0")
  have "all_failed net ?st0"
    by (simp add: all_failed_def last_failure_def)
  from proxy_loop_settled [OF this p] obtain k where s: "settled net r st"
    and k: "k \<le> length (schedule PROXIES targetUrl)"
    and req: "requested st = take k (schedule PROXIES targetUrl)"
    and kn: "r = None \<longrightarrow> k = length (schedule PROXIES targetUrl)"
    by auto
  have pre: "\<exists>k \<le> 2 * length PROXIES. requested st = take k (schedule PROXIES targetUrl)"
    using k req by (auto simp: length_schedule)
  show ?thesis
  proof (cases r)
    case (Some d)
    with s pre show ?thesis
      by (simp add: fetchWithRetry_def p settled_def)
  next
    case None
    with kn req have full: "requested st = schedule PROXIES targetUrl" by simp
    from None s have af: "all_failed net st" by (simp add: settled_def)
    have e: "requested st \<noteq> [] \<Longrightarrow>
        attempt_once (net (last (requested st)) (length (requested st) - 1))
          = Inl (case lastError st of Some e \<Rightarrow> e | None \<Rightarrow> AllProxiesFailed)"
    proof -
      assume ne: "requested st \<noteq> []"
      then have "fails_at net (requested st) (length (requested st) - 1)"
        using af by (simp add: all_failed_def)
      then obtain e' where "attempt_once (net (last (requested st)) (length (requested st) - 1)) = Inl e'"
        using ne by (cases "attempt_once (net (last (requested st)) (length (requested st) - 1))")
          (simp_all add: fails_at_def last_conv_nth)
      with af ne show ?thesis by (simp add: all_failed_def last_failure_def)
    qed
    have n: "requested st = [] \<Longrightarrow> lastError st = None"
      using af by (simp add: all_failed_def last_failure_def)
    from af have all: "\<forall>i < length (requested st). fails_at net (requested st) i"
      by (simp add: all_failed_def)
    show ?thesis
      using None pre full e n all
      by (simp add: fetchWithRetry_def p)
  qed
qed

lemma fetch_late_success:
  "fetchWithRetry two_proxies (scripted_net late_success) [0x75]
     = (Inr 42, [[0x61, 0x75], [0x61, 0x75], [0x62, 0x75], [0x62, 0x75]])"
  by (simp add: fetchWithRetry_def two_proxies_def attempt_loop_unfold attempt_once_def
      scripted_net_def late_success_def)

lemma fetch_no_success:
  "fetchWithRetry two_proxies (scripted_net no_success) [0x75]
     = (Inl (HttpError 404), [[0x61, 0x75], [0x61, 0x75], [0x62, 0x75], [0x62, 0x75]])"
  by (simp add: fetchWithRetry_def two_proxies_def attempt_loop_unfold attempt_once_def
      scripted_net_def no_success_def)

theorem fetchWithRetry_first_success_or_last_error_witness:
  "fetchWithRetry two_proxies (scripted_net late_success) [0x75]
     = (Inr 42, [[0x61, 0x75], [0x61, 0x75], [0x62, 0x75], [0x62, 0x75]]) \<and>
   schedule two_proxies [0x75] = [[0x61, 0x75], [0x61, 0x75], [0x62, 0x75], [0x62, 0x75]] \<and>
   fails_at (scripted_net late_success) (schedule two_proxies [0x75]) 0 \<and>
   fails_at (scripted_net late_success) (schedule two_proxies [0x75]) 1 \<and>
   fails_at (scripted_net late_success) (schedule two_proxies [0x75]) 2 \<and>
   attempt_once (scripted_net late_success ([0x62, 0x75] :: jsstring) 3) = Inr 42 \<and>
   fetchWithRetry two_proxies (scripted_net no_success) [0x75]
     = (Inl (HttpError 404), schedule two_proxies [0x75]) \<and>
   fails_at (scripted_net no_success) (schedule two_proxies [0x75]) 3 \<and>
   attempt_once (scripted_net no_success ([0x62, 0x75] :: jsstring) 3) = Inl (HttpError 404)"
proof -
  have sch: "schedule two_proxies [0x75] = [[0x61, 0x75], [0x61, 0x75], [0x62, 0x75], [0x62, 0x75]]"
    by (simp add: schedule_def two_proxies_def)
  have three: "\<And>P. (\<forall>i<3. P i) = (P 0 \<and> P (Suc 0) \<and> P (2::nat))"
    by (auto simp: numeral_3_eq_3 numeral_2_eq_2 less_Suc_eq)
  have four: "\<And>P. (\<forall>i<4. P i) = (P 0 \<and> P (Suc 0) \<and> P 2 \<and> P (3::nat))"
    by (auto simp: numeral_3_eq_3 numeral_2_eq_2 less_Suc_eq eval_nat_numeral)
  show ?thesis
    using fetchWithRetry_first_success_or_last_error
        [where PROXIES = two_proxies and net = "scripted_net late_success" and targetUrl = "[0x75]"]
      fetchWithRetry_first_success_or_last_error
        [where PROXIES = two_proxies and net = "scripted_net no_success" and targetUrl = "[0x75]"]
    by (simp add: fetch_late_success fetch_no_success sch three four numeral_3_eq_3)
qed

section \<open>Properties of the catalog client: merging, comics, recency\<close>

lemma map_set_distinct: "distinct (map fst m) \<Longrightarrow> distinct (map fst (map_set m k v))"
  by (simp add: map_set_keys)

lemma map_set_map_of: "map_of (map_set m k v) = (map_of m)(k \<mapsto> v)"
  by (induction m k v rule: map_set.induct) auto

lemma fold_map_set_keys:
  "set (map fst (foldl (\<lambda>m (k, v). map_set m k v) m es)) = set (map fst m) \<union> set (map fst es)"
proof (induction es arbitrary: m)
  case Nil
  then show ?case by simp
next
  case (Cons e es)
  obtain k v where e: "e = (k, v)" by (cases e)
  show ?case
    unfolding e using Cons.IH [of "map_set m k v"] by (auto simp: map_set_keys)
qed

lemma fold_map_set_distinct:
  "distinct (map fst m) \<Longrightarrow> distinct (map fst (foldl (\<lambda>m (k, v). map_set m k v) m es))"
proof (induction es arbitrary: m)
  case Nil
  then show ?case by simp
next
  case (Cons e es)
  obtain k v where e: "e = (k, v)" by (cases e)
  show ?case
    unfolding e using Cons.IH [of "map_set m k v"] Cons.prems by (simp add: map_set_distinct)
qed

lemma fold_map_set_map_of:
  "map_of (foldl (\<lambda>m (k, v). map_set m k v) m es) = map_of m ++ map_of (rev es)"
proof (induction es arbitrary: m)
  case Nil
  then show ?case by simp
next
  case (Cons e es)
  obtain k v where e: "e = (k, v)" by (cases e)
  have "map_of (foldl (\<lambda>m (k, v). map_set m k v) (map_set m k v) es)
          = (map_of m)(k \<mapsto> v) ++ map_of (rev es)"
    using Cons.IH [of "map_set m k v"] unfolding map_set_map_of .
  also have "\<dots> = map_of m ++ map_of (rev es @ [(k, v)])"
    by (rule ext) (auto simp: map_add_def split: option.splits)
  finally show ?case unfolding e by simp
qed

lemma new_Map_keys: "set (map fst (new_Map es)) = set (map fst es)"
  using fold_map_set_keys [of "[]" es] by (simp add: new_Map_def)

lemma new_Map_distinct: "distinct (map fst (new_Map es))"
  using fold_map_set_distinct [of "[]" es] by (simp add: new_Map_def)

lemma new_Map_map_of: "map_of (new_Map es) = map_of (rev es)"
  using fold_map_set_map_of [of "[]" es] by (simp add: new_Map_def)

lemma new_Map_entries: "set (new_Map es) \<subseteq> set es"
  using new_Map_entries_aux [of "[]" es] by (simp add: new_Map_def)

lemma uniqueBooks_ids:
  "map id_book (uniqueBooks xs) = map fst (new_Map (map (\<lambda>b. (id_book b, b)) xs))"
proof -
  have "\<forall>e \<in> set (new_Map (map (\<lambda>b. (id_book b, b)) xs)). id_book (snd e) = fst e"
    using new_Map_entries [of "map (\<lambda>b. (id_book b, b)) xs"] by auto
  then show ?thesis
    by (simp add: uniqueBooks_def)
qed

lemma uniqueBooks_distinct: "distinct (map id_book (uniqueBooks xs))"
  by (simp add: uniqueBooks_ids new_Map_distinct)

lemma uniqueBooks_id_set: "set (map id_book (uniqueBooks xs)) = set (map id_book xs)"
  using new_Map_keys [of "map (\<lambda>b. (id_book b, b)) xs"]
  by (simp add: uniqueBooks_ids comp_def)

lemma uniqueBooks_length: "length (uniqueBooks xs) = card (set (map id_book xs))"
proof -
  have "length (uniqueBooks xs) = length (map id_book (uniqueBooks xs))" by simp
  also have "\<dots> = card (set (map id_book (uniqueBooks xs)))"
    using uniqueBooks_distinct [of xs] by (simp only: distinct_card)
  finally show ?thesis by (simp only: uniqueBooks_id_set)
qed

lemma map_of_keyed_find:
  "map_of (map (\<lambda>b. (id_book b, b)) ys) k = find (\<lambda>b. id_book b = k) ys"
  by (induction ys) auto

text \<open>Last occurrence wins: the record kept for an id is the last one with that id.\<close>

lemma uniqueBooks_last_wins:
  "r \<in> set (uniqueBooks xs) \<longleftrightarrow> find (\<lambda>b. id_book b = id_book r) (rev xs) = Some r"
proof -
  let ?es = "map (\<lambda>b. (id_book b, b)) xs"
  have m: "map_of (new_Map ?es) k = find (\<lambda>b. id_book b = k) (rev xs)" for k
    using map_of_keyed_find [of "rev xs" k] by (simp add: new_Map_map_of rev_map)
  show ?thesis
  proof
    assume "r \<in> set (uniqueBooks xs)"
    then obtain k where kr: "(k, r) \<in> set (new_Map ?es)"
      by (auto simp: uniqueBooks_def)
    with new_Map_entries [of ?es] have "k = id_book r" by auto
    with kr have "map_of (new_Map ?es) (id_book r) = Some r"
      using new_Map_distinct [of ?es] by simp
    then show "find (\<lambda>b. id_book b = id_book r) (rev xs) = Some r"
      by (simp add: m)
  next
    assume "find (\<lambda>b. id_book b = id_book r) (rev xs) = Some r"
    then have "map_of (new_Map ?es) (id_book r) = Some r"
      by (simp add: m)
    then have "(id_book r, r) \<in> set (new_Map ?es)"
      by (rule map_of_SomeD)
    then show "r \<in> set (uniqueBooks xs)"
      by (force simp: uniqueBooks_def)
  qed
qed

lemma find_append_cases:
  "find P (xs @ ys) = (case find P xs of None \<Rightarrow> find P ys | Some x \<Rightarrow> Some x)"
  by (induction xs) auto

lemma find_in_set: "find P xs = Some x \<Longrightarrow> x \<in> set xs \<and> P x"
  by (induction xs) (auto split: if_splits)

lemma find_hits: "x \<in> set xs \<Longrightarrow> P x \<Longrightarrow> \<exists>y. find P xs = Some y"
  by (induction xs) auto

lemma find_by_distinct_id:
  assumes "distinct (map id_book ys)" and "n \<in> set ys"
  shows "find (\<lambda>b. id_book b = id_book n) ys = Some n"
  using assms by (induction ys) (auto simp: image_iff)

lemma merged_keeps_second:
  assumes "distinct (map id_book N)" and "n \<in> set N"
  shows "n \<in> set (uniqueBooks (B @ N))"
proof -
  have "distinct (map id_book (rev N))" and "n \<in> set (rev N)"
    using assms by (simp_all add: rev_map [symmetric])
  then have "find (\<lambda>b. id_book b = id_book n) (rev N) = Some n"
    by (rule find_by_distinct_id)
  then show ?thesis
    by (simp add: uniqueBooks_last_wins find_append_cases)
qed

lemma merged_shared_from_second:
  assumes "r \<in> set (uniqueBooks (B @ N))" and "id_book r \<in> set (map id_book N)"
  shows "r \<in> set N"
proof -
  from assms(2) obtain n where "n \<in> set (rev N)" and "id_book n = id_book r" by auto
  then obtain y where y: "find (\<lambda>b. id_book b = id_book r) (rev N) = Some y"
    using find_hits [of n "rev N" "\<lambda>b. id_book b = id_book r"] by auto
  from assms(1) have "find (\<lambda>b. id_book b = id_book r) (rev N @ rev B) = Some r"
    by (simp add: uniqueBooks_last_wins)
  with y have "y = r" by (simp add: find_append_cases)
  with y show ?thesis using find_in_set [of "\<lambda>b. id_book b = id_book r" "rev N" y] by simp
qed

lemma merged_length:
  assumes "distinct (map id_book B)" and "distinct (map id_book N)"
  shows "length (uniqueBooks (B @ N))
           = length B + length N - card (set (map id_book B) \<inter> set (map id_book N))"
proof -
  let ?A = "set (map id_book B)" and ?C = "set (map id_book N)"
  have "card ?A + card ?C = card (?A \<union> ?C) + card (?A \<inter> ?C)"
    by (rule card_Un_Int) simp_all
  moreover have "card ?A = length B" and "card ?C = length N"
    using assms distinct_card [of "map id_book B"] distinct_card [of "map id_book N"] by simp_all
  moreover have "length (uniqueBooks (B @ N)) = card (?A \<union> ?C)"
    by (simp add: uniqueBooks_length)
  ultimately show ?thesis by arith
qed

lemma fetchBooks_combined:
  assumes "\<not> falsy_opt ttbKey"
    and "fetchJson (ItemList (trim (the ttbKey)) Bestseller pageNo) = Inr pb"
    and "fetchJson (ItemList (trim (the ttbKey)) ItemNewSpecial pageNo) = Inr pn"
    and "\<not> has_errorCode (as_aladin pb)" and "\<not> has_errorCode (as_aladin pn)"
  shows "fetchBooks fetchJson combined ttbKey nlkKey pageNo
           = Inr (filter isNotComic (uniqueBooks (item_books (as_aladin pb) @ item_books (as_aladin pn))))"
  using assms by (simp add: fetchBooks_def Let_def)

text \<open>
  Claim C2, as the code has it. For the combined source with both provider answers free
  of an error code, and with no id repeated inside the bestseller list \<open>B\<close> nor inside the
  new-special list \<open>N\<close>: the merged list has \<open>|B| + |N| - k\<close> entries, \<open>k\<close> the number of
  shared ids, and no id twice; every entry of \<open>N\<close> is in it, and a merged entry whose
  id occurs in \<open>N\<close> is the entry of \<open>N\<close>; the result is the merged list without comics.
\<close>

theorem combined_merge_prefers_new_special:
  assumes "\<not> falsy_opt ttbKey"
    and "fetchJson (ItemList (trim (the ttbKey)) Bestseller pageNo) = Inr pb"
    and "fetchJson (ItemList (trim (the ttbKey)) ItemNewSpecial pageNo) = Inr pn"
    and "\<not> has_errorCode (as_aladin pb)" and "\<not> has_errorCode (as_aladin pn)"
    and "B = item_books (as_aladin pb)" and "N = item_books (as_aladin pn)"
    and "distinct (map id_book B)" and "distinct (map id_book N)"
  shows "fetchBooks fetchJson combined ttbKey nlkKey pageNo
           = Inr (filter isNotComic (uniqueBooks (B @ N))) \<and>
         length (uniqueBooks (B @ N))
           = length B + length N - card (set (map id_book B) \<inter> set (map id_book N)) \<and>
         distinct (map id_book (uniqueBooks (B @ N))) \<and>
         set N \<subseteq> set (uniqueBooks (B @ N)) \<and>
         (\<forall>r \<in> set (uniqueBooks (B @ N)). id_book r \<in> set (map id_book N) \<longrightarrow> r \<in> set N)"
proof -
  have 1: "fetchBooks fetchJson combined ttbKey nlkKey pageNo
           = Inr (filter isNotComic (uniqueBooks (B @ N)))"
    using assms(1-5) unfolding assms(6,7) by (rule fetchBooks_combined)
  have 2: "length (uniqueBooks (B @ N))
           = length B + length N - card (set (map id_book B) \<inter> set (map id_book N))"
    using assms(8,9) by (rule merged_length)
  have 3: "distinct (map id_book (uniqueBooks (B @ N)))"
    by (rule uniqueBooks_distinct)
  have 4: "set N \<subseteq> set (uniqueBooks (B @ N))"
    using merged_keeps_second [OF assms(9)] by auto
  have 5: "\<forall>r \<in> set (uniqueBooks (B @ N)). id_book r \<in> set (map id_book N) \<longrightarrow> r \<in> set N"
    using merged_shared_from_second by blast
  from 1 2 3 4 5 show ?thesis by blast
qed

lemma String_8: "String 8 = [0x38]"
  by (simp add: String_def digits.simps)

lemma String_9: "String 9 = [0x39]"
  by (simp add: String_def digits.simps)

lemma sample_item_book:
  "mapAladinItemToBook (sample_item n date cat) = sample_book (String n) date cat discovery"
  by (simp add: mapAladinItemToBook_def sample_item_def sample_book_def or_else_def)

lemma split_answer_books:
  "item_books (as_aladin (AladinData \<lparr>errorCode = None, errorMessage = None, item = Some is\<rparr>))
     = map mapAladinItemToBook is"
  by (simp add: item_books_def as_aladin_def)

lemma no_errorCode:
  "\<not> has_errorCode (as_aladin (AladinData \<lparr>errorCode = None, errorMessage = None, item = x\<rparr>))"
  by (simp add: has_errorCode_def as_aladin_def)

theorem combined_merge_prefers_new_special_witness:
  "fetchBooks
     (split_answer [sample_item 7 [0x31] None, sample_item 8 [0x31] None]
                   [sample_item 7 [0x32] None, sample_item 9 [0x32] (Some comics_marker)])
     combined (Some [0x6B]) None 1
     = Inr [sample_book [0x37] [0x32] None discovery, sample_book [0x38] [0x31] None discovery] \<and>
   uniqueBooks
     ([sample_book [0x37] [0x31] None discovery, sample_book [0x38] [0x31] None discovery] @
      [sample_book [0x37] [0x32] None discovery,
       sample_book [0x39] [0x32] (Some comics_marker) discovery])
     = [sample_book [0x37] [0x32] None discovery, sample_book [0x38] [0x31] None discovery,
        sample_book [0x39] [0x32] (Some comics_marker) discovery] \<and>
   card (set (map id_book
           [sample_book [0x37] [0x31] None discovery, sample_book [0x38] [0x31] None discovery])
         \<inter> set (map id_book
           [sample_book [0x37] [0x32] None discovery,
            sample_book [0x39] [0x32] (Some comics_marker) discovery])) = 1"
proof -
  let ?bs = "[sample_item 7 [0x31] None, sample_item 8 [0x31] None]"
  let ?ns = "[sample_item 7 [0x32] None, sample_item 9 [0x32] (Some comics_marker)]"
  let ?B = "[sample_book [0x37] [0x31] None discovery, sample_book [0x38] [0x31] None discovery]"
  let ?N = "[sample_book [0x37] [0x32] None discovery,
             sample_book [0x39] [0x32] (Some comics_marker) discovery]"
  let ?pb = "AladinData \<lparr>errorCode = None, errorMessage = None, item = Some ?bs\<rparr>"
  let ?pn = "AladinData \<lparr>errorCode = None, errorMessage = None, item = Some ?ns\<rparr>"
  have k: "\<not> falsy_opt (Some [0x6B])"
    by (simp add: falsy_opt_def falsy_def)
  have b: "split_answer ?bs ?ns (ItemList (trim (the (Some [0x6B]))) Bestseller 1) = Inr ?pb"
    and n: "split_answer ?bs ?ns (ItemList (trim (the (Some [0x6B]))) ItemNewSpecial 1) = Inr ?pn"
    by (simp_all add: split_answer_def)
  have B: "?B = item_books (as_aladin ?pb)" and N: "?N = item_books (as_aladin ?pn)"
    by (simp_all add: split_answer_books sample_item_book String_7 String_8 String_9)
  have dB: "distinct (map id_book ?B)" and dN: "distinct (map id_book ?N)"
    by (simp_all add: sample_book_def)
  have u: "uniqueBooks (?B @ ?N)
     = [sample_book [0x37] [0x32] None discovery, sample_book [0x38] [0x31] None discovery,
        sample_book [0x39] [0x32] (Some comics_marker) discovery]"
    by (simp add: uniqueBooks_def new_Map_def sample_book_def)
  have f: "filter isNotComic [sample_book [0x37] [0x32] None discovery,
        sample_book [0x38] [0x31] None discovery,
        sample_book [0x39] [0x32] (Some comics_marker) discovery]
     = [sample_book [0x37] [0x32] None discovery, sample_book [0x38] [0x31] None discovery]"
    by (simp add: isNotComic_def sample_book_def falsy_opt_def falsy_def comics_marker_def)
  have c: "set (map id_book ?B) \<inter> set (map id_book ?N) = {[0x37]}"
    by (auto simp: sample_book_def)
  show ?thesis
    using combined_merge_prefers_new_special [OF k b n no_errorCode no_errorCode B N dB dN, of None]
    unfolding u f c by simp
qed

text \<open>
  Claim C2, as stated, fails when an id is repeated inside one list: the bestseller list
  holds item 7 twice and the new-special list is empty, so no id is shared, yet the
  merged and returned list has one entry, not two.
\<close>

theorem combined_merge_repeated_id_counterexample:
  "fetchBooks (split_answer [sample_item 7 [0x32] None, sample_item 7 [0x32] None] [])
     combined (Some [0x6B]) None 1 = Inr [book7 discovery] \<and>
   item_books (as_aladin (AladinData \<lparr>errorCode = None, errorMessage = None,
        item = Some [sample_item 7 [0x32] None, sample_item 7 [0x32] None]\<rparr>))
     = [book7 discovery, book7 discovery] \<and>
   card (set (map id_book [book7 discovery, book7 discovery]) \<inter> set (map id_book ([] :: Book list))) = 0 \<and>
   length [book7 discovery]
     \<noteq> length [book7 discovery, book7 discovery] + length ([] :: Book list) - 0"
proof -
  have u: "uniqueBooks [book7 discovery, book7 discovery] = [book7 discovery]"
    by (simp add: uniqueBooks_def new_Map_def)
  have f: "isNotComic (book7 discovery)"
    by (simp add: isNotComic_def book7_def sample_book_def falsy_opt_def)
  show ?thesis
    by (simp add: fetchBooks_def falsy_opt_def falsy_def split_answer_def no_errorCode
        split_answer_books sample_item_book String_7 u f book7_def [symmetric])
qed

lemma starts_with_iff: "starts_with hay needle \<longleftrightarrow> (\<exists>s. hay = needle @ s)"
  by (induction needle arbitrary: hay) (auto split: list.splits)

lemma includes_js_iff: "includes_js hay needle \<longleftrightarrow> (\<exists>p s. hay = p @ needle @ s)"
proof (induction hay)
  case Nil
  then show ?case by simp
next
  case (Cons h hs)
  show ?case
  proof
    assume "includes_js (h # hs) needle"
    then consider "starts_with (h # hs) needle" | "includes_js hs needle" by auto
    then show "\<exists>p s. h # hs = p @ needle @ s"
    proof cases
      case 1
      then obtain s where "h # hs = [] @ needle @ s" by (auto simp: starts_with_iff)
      then show ?thesis by blast
    next
      case 2
      with Cons.IH obtain p s where "hs = p @ needle @ s" by blast
      then have "h # hs = (h # p) @ needle @ s" by simp
      then show ?thesis by blast
    qed
  next
    assume "\<exists>p s. h # hs = p @ needle @ s"
    then obtain p s where ps: "h # hs = p @ needle @ s" by blast
    show "includes_js (h # hs) needle"
    proof (cases p)
      case Nil
      with ps have "starts_with (h # hs) needle" by (simp add: starts_with_iff)
      then show ?thesis by simp
    next
      case (Cons a p')
      with ps have "hs = p' @ needle @ s" by simp
      with Cons.IH show ?thesis by auto
    qed
  qed
qed

lemma isNotComic_iff: "isNotComic b \<longleftrightarrow> \<not> in_comics b"
  by (auto simp: isNotComic_def in_comics_def falsy_opt_def falsy_def comics_marker_def
      split: option.splits)

lemma fetchBooks_catalog_no_comics:
  assumes "source \<noteq> editorRecommend"
    and "fetchBooks fetchJson source ttbKey nlkKey pageNo = Inr bs" and "b \<in> set bs"
  shows "\<not> in_comics b"
  using assms
  by (auto simp: fetchBooks_def Let_def isNotComic_iff split: if_splits sum.splits)

lemma searchBooks_no_comics:
  assumes "searchBooks fetchJson parseDate oneYearAgo query key target pageNo = Inr bs"
    and "b \<in> set bs"
  shows "\<not> in_comics b"
  using assms
  by (auto simp: searchBooks_def Let_def isNotComic_iff split: if_splits sum.splits option.splits)

lemma fetchBooks_library:
  assumes "\<not> falsy_opt nlkKey"
    and "fetchJson (RecommendList (trim (the nlkKey)) pageNo) = Inr (NlkData (Some r))"
    and "falsy_opt (response_error r)" and "response_docs r = Some ds"
  shows "fetchBooks fetchJson editorRecommend ttbKey nlkKey pageNo = Inr (map mapNlkDocToBook ds)"
  using assms by (simp add: fetchBooks_def as_nlk_def)

text \<open>
  Claim C7. Whatever the provider answers, no book with the comics marker in its
  category is in a result of \<open>fetchBooks\<close> for the bestseller, new-special or combined
  source, nor in a result of \<open>searchBooks\<close>. For the library source, with its key and an
  answer that has documents and no error, the result is every document mapped, its
  category being the document's class name as it is, marker or not.
\<close>

theorem comics_dropped_from_catalog_kept_from_library:
  "(source \<noteq> editorRecommend \<longrightarrow>
      fetchBooks fetchJson source ttbKey nlkKey pageNo = Inr bs \<longrightarrow>
      (\<forall>b \<in> set bs. \<not> in_comics b)) \<and>
   (searchBooks fetchJson parseDate oneYearAgo query key target pageNo = Inr found \<longrightarrow>
      (\<forall>b \<in> set found. \<not> in_comics b)) \<and>
   (\<not> falsy_opt libraryKey \<longrightarrow>
      fetchJson (RecommendList (trim (the libraryKey)) pageNo) = Inr (NlkData (Some r)) \<longrightarrow>
      falsy_opt (response_error r) \<longrightarrow>
      response_docs r = Some ds \<longrightarrow>
      fetchBooks fetchJson editorRecommend ttbKey libraryKey pageNo = Inr (map mapNlkDocToBook ds) \<and>
      (\<forall>d \<in> set ds. categoryName (mapNlkDocToBook d) = doc_class_nm d))"
proof -
  have 1: "source \<noteq> editorRecommend \<longrightarrow>
      fetchBooks fetchJson source ttbKey nlkKey pageNo = Inr bs \<longrightarrow>
      (\<forall>b \<in> set bs. \<not> in_comics b)"
    using fetchBooks_catalog_no_comics by blast
  have 2: "searchBooks fetchJson parseDate oneYearAgo query key target pageNo = Inr found \<longrightarrow>
      (\<forall>b \<in> set found. \<not> in_comics b)"
    using searchBooks_no_comics by blast
  have 3: "\<not> falsy_opt libraryKey \<longrightarrow>
      fetchJson (RecommendList (trim (the libraryKey)) pageNo) = Inr (NlkData (Some r)) \<longrightarrow>
      falsy_opt (response_error r) \<longrightarrow>
      response_docs r = Some ds \<longrightarrow>
      fetchBooks fetchJson editorRecommend ttbKey libraryKey pageNo = Inr (map mapNlkDocToBook ds) \<and>
      (\<forall>d \<in> set ds. categoryName (mapNlkDocToBook d) = doc_class_nm d)"
    using fetchBooks_library by (simp add: mapNlkDocToBook_def)
  from 1 2 3 show ?thesis by blast
qed

lemma marker_in_comics [simp]: "in_comics (sample_book i d (Some comics_marker) st)"
  by (simp add: in_comics_def sample_book_def comics_marker_def)

lemma plain_not_in_comics [simp]: "\<not> in_comics (sample_book i d None st)"
  by (simp add: in_comics_def sample_book_def)

theorem comics_dropped_from_catalog_kept_from_library_witness:
  "fetchBooks
     (mixed_answer [sample_item 7 [0x32] None, sample_item 9 [0x32] (Some comics_marker)]
                   [sample_doc (Some comics_marker)])
     bestseller (Some [0x6B]) (Some [0x6E]) 1
     = Inr [sample_book [0x37] [0x32] None discovery] \<and>
   in_comics (mapAladinItemToBook (sample_item 9 [0x32] (Some comics_marker))) \<and>
   searchBooks
     (mixed_answer [sample_item 7 [0x32] None, sample_item 9 [0x32] (Some comics_marker)]
                   [sample_doc (Some comics_marker)])
     no_date 0 [0x54] [0x6B] Keyword 1
     = Inr [sample_book [0x37] [0x32] None discovery] \<and>
   fetchBooks
     (mixed_answer [sample_item 7 [0x32] None, sample_item 9 [0x32] (Some comics_marker)]
                   [sample_doc (Some comics_marker)])
     editorRecommend (Some [0x6B]) (Some [0x6E]) 1
     = Inr [mapNlkDocToBook (sample_doc (Some comics_marker))] \<and>
   categoryName (mapNlkDocToBook (sample_doc (Some comics_marker))) = Some comics_marker \<and>
   in_comics (mapNlkDocToBook (sample_doc (Some comics_marker)))"
proof -
  let ?f = "mixed_answer [sample_item 7 [0x32] None, sample_item 9 [0x32] (Some comics_marker)]
                   [sample_doc (Some comics_marker)]"
  let ?r = "\<lparr>response_error = None, response_docs = Some [sample_doc (Some comics_marker)]\<rparr>"
  have nc: "isNotComic (sample_book i d None st)" "\<not> isNotComic (sample_book i d (Some comics_marker) st)"
    for i d st by (simp_all add: isNotComic_iff)
  have pd: "pubDate (sample_book i d c st) = d" for i d c st
    by (simp add: sample_book_def)
  have b: "fetchBooks ?f bestseller (Some [0x6B]) (Some [0x6E]) 1
     = Inr [sample_book [0x37] [0x32] None discovery]"
    by (simp add: fetchBooks_def falsy_opt_def falsy_def mixed_answer_def no_errorCode
        split_answer_books sample_item_book String_7 String_9 nc)
  have s: "searchBooks ?f no_date 0 [0x54] [0x6B] Keyword 1
     = Inr [sample_book [0x37] [0x32] None discovery]"
    by (simp add: searchBooks_def falsy_def mixed_answer_def has_errorCode_def as_aladin_def Let_def
        sample_item_book String_7 String_9 nc isWithinOneYear_def no_date_def pd)
  have k: "\<not> falsy_opt (Some [0x6E])"
    by (simp add: falsy_opt_def falsy_def)
  have l: "?f (RecommendList (trim (the (Some [0x6E]))) 1) = Inr (NlkData (Some ?r))"
    by (simp add: mixed_answer_def)
  have c: "categoryName (mapNlkDocToBook (sample_doc (Some comics_marker))) = Some comics_marker"
    by (simp add: mapNlkDocToBook_def sample_doc_def)
  have i: "in_comics (mapNlkDocToBook (sample_doc (Some comics_marker)))"
    unfolding in_comics_def c by (simp add: comics_marker_def)
  show ?thesis
    using comics_dropped_from_catalog_kept_from_library
      [where source = bestseller and fetchJson = ?f and ttbKey = "Some [0x6B]"
         and nlkKey = "Some [0x6E]" and pageNo = 1
         and bs = "[sample_book [0x37] [0x32] None discovery]"
         and parseDate = no_date and oneYearAgo = 0 and query = "[0x54]" and key = "[0x6B]"
         and target = Keyword and found = "[sample_book [0x37] [0x32] None discovery]"
         and libraryKey = "Some [0x6E]" and r = ?r and ds = "[sample_doc (Some comics_marker)]"]
      b s k l c i
    by (simp add: sample_item_book String_9 falsy_opt_def falsy_def)
qed

lemma isWithinOneYear_iff:
  "isWithinOneYear parseDate oneYearAgo d
     \<longleftrightarrow> d \<noteq> [] \<and> \<not> (\<exists>t. parseDate d = Some t \<and> t < oneYearAgo)"
  by (auto simp: isWithinOneYear_def falsy_def split: option.splits)

lemma searchBooks_items:
  assumes "\<not> falsy query" and "\<not> falsy ttbKey"
    and "fetchJson (ItemSearch (trim ttbKey) query target pageNo) = Inr p"
    and "\<not> has_errorCode (as_aladin p)" and "item (as_aladin p) = Some items"
  shows "searchBooks fetchJson parseDate oneYearAgo query ttbKey target pageNo
           = Inr (filter isNotComic
                   (filter (\<lambda>book. isWithinOneYear parseDate oneYearAgo (pubDate book))
                     (map mapAladinItemToBook items)))"
  using assms by (simp add: searchBooks_def Let_def)

text \<open>
  Claim C3, as the code has it. For a search that reaches the provider and gets items
  without an error code, the result is the mapped items after the recency filter and
  then the comics filter; the recency filter removes a book exactly if its date string
  is empty or parses to a date older than the cut-off; so a book outside comics is in
  the result exactly if its date string is not empty and does not parse to an older
  date, and a book whose date string is not empty and does not parse is kept.
\<close>

theorem search_recency_removes_empty_or_older:
  assumes "\<not> falsy query" and "\<not> falsy ttbKey"
    and "fetchJson (ItemSearch (trim ttbKey) query target pageNo) = Inr p"
    and "\<not> has_errorCode (as_aladin p)" and "item (as_aladin p) = Some items"
  shows "(\<exists>found.
           searchBooks fetchJson parseDate oneYearAgo query ttbKey target pageNo = Inr found \<and>
           (\<forall>b \<in> set (map mapAladinItemToBook items).
              (b \<in> set found \<longleftrightarrow>
                 isNotComic b \<and> pubDate b \<noteq> [] \<and>
                 \<not> (\<exists>t. parseDate (pubDate b) = Some t \<and> t < oneYearAgo)) \<and>
              (pubDate b \<noteq> [] \<and> parseDate (pubDate b) = None \<and> isNotComic b \<longrightarrow> b \<in> set found))) \<and>
         (\<forall>d. isWithinOneYear parseDate oneYearAgo d
                \<longleftrightarrow> d \<noteq> [] \<and> \<not> (\<exists>t. parseDate d = Some t \<and> t < oneYearAgo))"
proof -
  let ?found = "filter isNotComic
                   (filter (\<lambda>book. isWithinOneYear parseDate oneYearAgo (pubDate book))
                     (map mapAladinItemToBook items))"
  have 1: "searchBooks fetchJson parseDate oneYearAgo query ttbKey target pageNo = Inr ?found"
    using assms by (rule searchBooks_items)
  have 2: "\<forall>b \<in> set (map mapAladinItemToBook items).
              (b \<in> set ?found \<longleftrightarrow>
                 isNotComic b \<and> pubDate b \<noteq> [] \<and>
                 \<not> (\<exists>t. parseDate (pubDate b) = Some t \<and> t < oneYearAgo)) \<and>
              (pubDate b \<noteq> [] \<and> parseDate (pubDate b) = None \<and> isNotComic b \<longrightarrow> b \<in> set ?found)"
    by (auto simp: isWithinOneYear_iff)
  from 1 2 show ?thesis
    using isWithinOneYear_iff by blast
qed

lemma sample_book_pubDate: "pubDate (sample_book i d c st) = d"
  by (simp add: sample_book_def)

lemma sample_book_plain: "isNotComic (sample_book i d None st)"
  by (simp add: isNotComic_iff)

theorem search_recency_removes_empty_or_older_witness:
  "searchBooks
     (mixed_answer [sample_item 7 [0x32] None, sample_item 8 [0x39] None, sample_item 9 [0x78] None] [])
     digit_date 5 [0x54] [0x6B] Keyword 1
     = Inr [sample_book [0x38] [0x39] None discovery, sample_book [0x39] [0x78] None discovery] \<and>
   digit_date [0x32] = Some 2 \<and> digit_date [0x39] = Some 9 \<and> digit_date [0x78] = None \<and>
   \<not> isWithinOneYear digit_date 5 [0x32] \<and>
   isWithinOneYear digit_date 5 [0x39] \<and>
   isWithinOneYear digit_date 5 [0x78]"
proof -
  let ?items = "[sample_item 7 [0x32] None, sample_item 8 [0x39] None, sample_item 9 [0x78] None]"
  let ?f = "mixed_answer ?items []"
  let ?p = "AladinData \<lparr>errorCode = None, errorMessage = None, item = Some ?items\<rparr>"
  have q: "\<not> falsy [0x54]" and k: "\<not> falsy [0x6B]"
    by (simp_all add: falsy_def)
  have a: "?f (ItemSearch (trim [0x6B]) [0x54] Keyword 1) = Inr ?p"
    by (simp add: mixed_answer_def)
  have i: "item (as_aladin ?p) = Some ?items"
    by (simp add: as_aladin_def)
  have d: "digit_date [0x32] = Some 2" "digit_date [0x39] = Some 9" "digit_date [0x78] = None"
    by (simp_all add: digit_date_def)
  have w: "\<not> isWithinOneYear digit_date 5 [0x32]" "isWithinOneYear digit_date 5 [0x39]"
    "isWithinOneYear digit_date 5 [0x78]"
    by (simp_all add: isWithinOneYear_def falsy_def d)
  have e: "searchBooks ?f digit_date 5 [0x54] [0x6B] Keyword 1
     = Inr [sample_book [0x38] [0x39] None discovery, sample_book [0x39] [0x78] None discovery]"
    by (simp add: searchBooks_items [where fetchJson = ?f, OF q k a no_errorCode i]
        sample_item_book String_7 String_8
        String_9 sample_book_pubDate sample_book_plain w)
  show ?thesis
    using search_recency_removes_empty_or_older
        [where fetchJson = ?f and parseDate = digit_date and oneYearAgo = 5,
         OF q k a no_errorCode i] e d w
    by simp
qed

text \<open>
  Claim C3, as stated, fails for an empty date string: it does not parse to a date, the
  book is outside comics, and still the search result drops the book.
\<close>

theorem search_drops_empty_date_counterexample:
  "digit_date (pubDate (mapAladinItemToBook (sample_item 7 [] None))) = None \<and>
   isNotComic (mapAladinItemToBook (sample_item 7 [] None)) \<and>
   searchBooks (mixed_answer [sample_item 7 [] None] []) digit_date 5 [0x54] [0x6B] Keyword 1
     = Inr []"
proof -
  let ?items = "[sample_item 7 [] None]"
  let ?p = "AladinData \<lparr>errorCode = None, errorMessage = None, item = Some ?items\<rparr>"
  have q: "\<not> falsy [0x54]" and k: "\<not> falsy [0x6B]"
    by (simp_all add: falsy_def)
  have a: "mixed_answer ?items [] (ItemSearch (trim [0x6B]) [0x54] Keyword 1) = Inr ?p"
    by (simp add: mixed_answer_def)
  have i: "item (as_aladin ?p) = Some ?items"
    by (simp add: as_aladin_def)
  show ?thesis
    by (simp add: searchBooks_items [where fetchJson = "mixed_answer ?items []",
          OF q k a no_errorCode i] sample_item_book
        sample_book_pubDate sample_book_plain digit_date_def isWithinOneYear_def falsy_def)
qed

section \<open>Properties of the analysis collaborator\<close>

text \<open>
  Claim C9, as the code has it. On an empty book list the endpoint is never called. With
  an API key configured the result is the canned report, whose score is 0; without one
  the key check, which comes first, raises the not-configured error.
\<close>

theorem analysis_of_empty_list:
  "(\<not> falsy_opt apiKey \<longrightarrow>
      analyzeAcquisitionList generateContent jsonParse apiKey [] = (Inr canned_report, [])) \<and>
   (falsy_opt apiKey \<longrightarrow>
      analyzeAcquisitionList generateContent jsonParse apiKey [] = (Inl GeminiKeyNotConfigured, [])) \<and>
   snd (analyzeAcquisitionList generateContent jsonParse apiKey []) = [] \<and>
   recommendationScore canned_report = 0"
  by (simp add: analyzeAcquisitionList_def canned_report_def)

theorem analysis_of_empty_list_witness:
  "\<not> falsy_opt (Some [0x6B]) \<and>
   analyzeAcquisitionList no_answer no_report (Some [0x6B]) [] = (Inr canned_report, []) \<and>
   falsy_opt (Some []) \<and>
   analyzeAcquisitionList no_answer no_report (Some []) [] = (Inl GeminiKeyNotConfigured, [])"
  using analysis_of_empty_list [of "Some [0x6B]" no_answer no_report]
    analysis_of_empty_list [of "Some []" no_answer no_report]
  by (simp add: falsy_opt_def falsy_def)

text \<open>
  Claim C9, as stated, fails when no API key is configured: the call with an empty list
  raises an error instead of returning the canned report.
\<close>

theorem analysis_without_key_counterexample:
  "analyzeAcquisitionList no_answer no_report None [] = (Inl GeminiKeyNotConfigured, []) \<and>
   fst (analyzeAcquisitionList no_answer no_report None []) \<noteq> Inr canned_report"
  by (simp add: analyzeAcquisitionList_def falsy_opt_def)

section \<open>Properties of the purchase order\<close>

text \<open>A field written with its quotes doubled and enclosed in quotes is read back as it was.\<close>

lemma csv_read_escaped_field:
  "csv_read Quoted fld row rows (double_quotes s @ quote_unit # rest)
     = csv_read QuoteSeen (fld @ s) row rows rest"
proof (induction s arbitrary: fld)
  case Nil
  then show ?case by (simp add: double_quotes_def)
next
  case (Cons c s)
  have d: "double_quotes (x # s) = (if x = quote_unit then [quote_unit, quote_unit] else [x]) @ double_quotes s"
    for x by (simp add: double_quotes_def)
  show ?case
  proof (cases "c = quote_unit")
    case True
    with Cons.IH [of "fld @ [quote_unit]"] show ?thesis by (simp add: d)
  next
    case False
    with Cons.IH [of "fld @ [c]"] show ?thesis by (simp add: d)
  qed
qed

lemma csv_read_title_alone:
  "csv_read FieldStart [] [] [] (in_quotes (double_quotes s)) = Some [[s]]"
  using csv_read_escaped_field [of "[]" "[]" "[]" s "[]"]
  by (simp add: in_quotes_def)

text \<open>The file starts with the three bytes of the UTF-8 byte-order mark.\<close>

lemma utf8_bom: "utf8_encode (0xFEFF # rest) = [0xEF, 0xBB, 0xBF] @ utf8_encode rest"
proof (cases rest)
  case Nil
  then show ?thesis by (simp add: utf8_encode_def utf8_bytes_def)
next
  case (Cons l cs)
  then show ?thesis by (simp add: utf8_encode_def utf8_bytes_def)
qed

lemma download_starts_with_bom:
  assumes "handleDownloadOrder s = Some bytes"
  shows "take 3 bytes = [0xEF, 0xBB, 0xBF]"
proof -
  from assms have "bytes = utf8_encode (csvContent (confirmedBooks s))"
    by (simp add: handleDownloadOrder_def split: if_splits)
  then show ?thesis
    by (simp add: csvContent_def utf8_bom)
qed

lemmas csv_eval =
  csvContent_def headers_def order_row_def order_values_def in_quotes_def double_quotes_def
  quote_unit_def String_def digits.simps csv_parse_def or_else_def falsy_def quoted_book_def

text \<open>
  Claim C8 at a book whose title and category each hold a double quote. The title is
  written with the quote doubled, the category with the quote as it is, so the file is
  not in the CSV format and a reader rejects it. With the category \<open>c""d\<close> the file is
  in the format, but the category read back is \<open>c"d\<close>, not the original. With no quote
  outside the title the values are read back as they were. The file starts with the
  byte-order mark.
\<close>

theorem order_csv_leaves_category_quote_unescaped:
  "order_row (quoted_book (Some [0x63, 0x22, 0x64])) ! 0 = [0x22, 0x61, 0x22, 0x22, 0x62, 0x22] \<and>
   order_row (quoted_book (Some [0x63, 0x22, 0x64])) ! 7 = [0x22, 0x63, 0x22, 0x64, 0x22] \<and>
   csv_parse (csvContent [quoted_book (Some [0x63, 0x22, 0x64])]) = None \<and>
   csv_parse (csvContent [quoted_book (Some [0x63, 0x22, 0x22, 0x64])])
     = Some [headers, order_values (quoted_book (Some [0x63, 0x22, 0x64]))] \<and>
   order_values (quoted_book (Some [0x63, 0x22, 0x22, 0x64]))
     \<noteq> order_values (quoted_book (Some [0x63, 0x22, 0x64])) \<and>
   csv_parse (csvContent [quoted_book None]) = Some [headers, order_values (quoted_book None)] \<and>
   map_option (take 3) (handleDownloadOrder (board7 [] [] [quoted_book (Some [0x63, 0x22, 0x64])]))
     = Some [0xEF, 0xBB, 0xBF]"
proof -
  have 1: "order_row (quoted_book (Some [0x63, 0x22, 0x64])) ! 0 = [0x22, 0x61, 0x22, 0x22, 0x62, 0x22]"
    "order_row (quoted_book (Some [0x63, 0x22, 0x64])) ! 7 = [0x22, 0x63, 0x22, 0x64, 0x22]"
    by (simp_all add: csv_eval)
  have 2: "csv_parse (csvContent [quoted_book (Some [0x63, 0x22, 0x64])]) = None"
    by (simp add: csv_eval)
  have 3: "csv_parse (csvContent [quoted_book (Some [0x63, 0x22, 0x22, 0x64])])
     = Some [headers, order_values (quoted_book (Some [0x63, 0x22, 0x64]))]"
    by (simp add: csv_eval)
  have 4: "order_values (quoted_book (Some [0x63, 0x22, 0x22, 0x64]))
     \<noteq> order_values (quoted_book (Some [0x63, 0x22, 0x64]))"
    by (simp add: csv_eval)
  have 5: "csv_parse (csvContent [quoted_book None]) = Some [headers, order_values (quoted_book None)]"
    by (simp add: csv_eval)
  have 6: "map_option (take 3) (handleDownloadOrder (board7 [] [] [quoted_book (Some [0x63, 0x22, 0x64])]))
     = Some [0xEF, 0xBB, 0xBF]"
    by (simp add: handleDownloadOrder_def board7_def csvContent_def utf8_bom)
  from 1 2 3 4 5 6 show ?thesis by simp
qed

end
